theory Spec2Isabelle
  imports
    Complex_Main
    "HOL-Library.Char_ord"
    "HOL-Library.List_Lexorder"
    "HOL-Library.Product_Lexorder"
    "HOL-Library.AList"
    "HOL-Library.Multiset"
    "HOL-Library.Log_Nat"
begin

section \<open>The sales record table\<close>

text \<open>
  The analysis module \<^verbatim>\<open>scripts/data_analysis.py\<close> works on a pandas DataFrame.
  A table is modelled by the list of its column names and the list of its rows. A row
  carries its index label, one typed field for each of the nine columns that the
  analysis functions read, and an association list for every other column. The value
  of a typed field is meaningful only when the column's name is in \<open>columns\<close>; every
  function below reads only columns that it has checked to be present.

  Numbers are rationals. The special float values that the code can produce from
  finite inputs (a missing cell, a division by zero) are modelled by \<open>pyfloat\<close>; signed
  zeros are not distinguished. Sums, means and the growth formulas have the exact value
  of the formula that the code evaluates. The division and the multiplication that
  make \<open>Market_Share_Pct\<close> round to binary64 as the code's do, because the sum of the
  percentages depends on the rounding.
\<close>

datatype label = IntL int | StrL string

datatype cell = Str string | Num rat | Bool bool | Null

record row =
  idx :: label
  Model :: string
  Year :: int
  Region :: string
  Market_Segment :: string
  Sales_Volume :: rat
  Price_USD :: rat
  Customer_ID :: label
  Vehicle_Type :: "string option"
  Green_Vehicle :: bool
  other :: "(string \<times> cell) list"

record dataframe =
  columns :: "string list"
  rows :: "row list"

text \<open>\<^verbatim>\<open>df.empty\<close>: some axis of the table has length 0.\<close>

definition empty :: "dataframe \<Rightarrow> bool" where
  "empty df \<longleftrightarrow> columns df = [] \<or> rows df = []"

datatype error = DataAnalysisError string | ValueError string | IndexError

text \<open>The message of an exception, as \<^verbatim>\<open>str(exc)\<close> gives it.\<close>

fun exception_text :: "error \<Rightarrow> string" where
  "exception_text (DataAnalysisError m) = m"
| "exception_text (ValueError m) = m"
| "exception_text IndexError = ''single positional indexer is out-of-bounds''"

subsection \<open>Float values\<close>

datatype pyfloat = Fin rat | PInf | NInf | NaN

fun fneg :: "pyfloat \<Rightarrow> pyfloat" where
  "fneg (Fin a) = Fin (- a)"
| "fneg PInf = NInf"
| "fneg NInf = PInf"
| "fneg NaN = NaN"

fun fadd :: "pyfloat \<Rightarrow> pyfloat \<Rightarrow> pyfloat" where
  "fadd (Fin a) (Fin b) = Fin (a + b)"
| "fadd NaN _ = NaN"
| "fadd _ NaN = NaN"
| "fadd PInf NInf = NaN"
| "fadd NInf PInf = NaN"
| "fadd PInf _ = PInf"
| "fadd _ PInf = PInf"
| "fadd NInf _ = NInf"
| "fadd _ NInf = NInf"

definition fsub :: "pyfloat \<Rightarrow> pyfloat \<Rightarrow> pyfloat" where
  "fsub a b = fadd a (fneg b)"

fun fmul :: "pyfloat \<Rightarrow> pyfloat \<Rightarrow> pyfloat" where
  "fmul (Fin a) (Fin b) = Fin (a * b)"
| "fmul NaN _ = NaN"
| "fmul _ NaN = NaN"
| "fmul PInf (Fin b) = (if 0 < b then PInf else if b < 0 then NInf else NaN)"
| "fmul NInf (Fin b) = (if 0 < b then NInf else if b < 0 then PInf else NaN)"
| "fmul (Fin a) PInf = (if 0 < a then PInf else if a < 0 then NInf else NaN)"
| "fmul (Fin a) NInf = (if 0 < a then NInf else if a < 0 then PInf else NaN)"
| "fmul PInf PInf = PInf"
| "fmul PInf NInf = NInf"
| "fmul NInf PInf = NInf"
| "fmul NInf NInf = PInf"

fun fdiv :: "pyfloat \<Rightarrow> pyfloat \<Rightarrow> pyfloat" where
  "fdiv (Fin a) (Fin b) =
     (if b \<noteq> 0 then Fin (a / b)
      else if 0 < a then PInf else if a < 0 then NInf else NaN)"
| "fdiv NaN _ = NaN"
| "fdiv _ NaN = NaN"
| "fdiv (Fin a) PInf = Fin 0"
| "fdiv (Fin a) NInf = Fin 0"
| "fdiv PInf (Fin b) = (if 0 \<le> b then PInf else NInf)"
| "fdiv NInf (Fin b) = (if 0 \<le> b then NInf else PInf)"
| "fdiv PInf PInf = NaN"
| "fdiv PInf NInf = NaN"
| "fdiv NInf PInf = NaN"
| "fdiv NInf NInf = NaN"

definition fsum :: "pyfloat list \<Rightarrow> pyfloat" where
  "fsum xs = foldl fadd (Fin 0) xs"

text \<open>\<^verbatim>\<open>Series.mean()\<close> skips the undefined entries; with none left it is NaN.\<close>

definition mean_skipna :: "pyfloat list \<Rightarrow> pyfloat" where
  "mean_skipna xs =
     (let ys = filter (\<lambda>v. v \<noteq> NaN) xs
      in if ys = [] then NaN else fdiv (fsum ys) (Fin (of_nat (length ys))))"

subsection \<open>Rounding to binary64\<close>

text \<open>
  A binary64 number has a significand of 53 bits. \<open>round64\<close> rounds a rational to the
  nearest such number, a tie to the even significand: for \<open>x\<close> with
  \<open>2 powi e \<le> \<bar>x\<bar> < 2 powi (e + 1)\<close> the unit in the last place is \<open>2 powi (e - 52)\<close>, and
  \<open>x\<close> is rounded to a multiple of it. \<open>exponent_of\<close> finds \<open>e\<close> from the bit lengths of
  numerator and denominator. The range of the exponent is not bounded: overflow and
  subnormal numbers are not modelled.
\<close>

definition round_half_even :: "rat \<Rightarrow> int" where
  "round_half_even y =
     (let f = \<lfloor>y\<rfloor>; d = y - of_int f
      in if d < 1 / 2 then f else if 1 / 2 < d then f + 1 else if even f then f else f + 1)"

definition exponent_of :: "rat \<Rightarrow> int" where
  "exponent_of x =
     (let e = bitlen (fst (quotient_of x)) - bitlen (snd (quotient_of x))
      in if 2 powi e \<le> x then e else e - 1)"

definition round64 :: "rat \<Rightarrow> rat" where
  "round64 x =
     (if x = 0 then 0
      else let u = 2 powi (exponent_of \<bar>x\<bar> - 52)
           in of_int (round_half_even (x / u)) * u)"

text \<open>A float operation is the exact operation followed by the rounding of a finite result.\<close>

fun to64 :: "pyfloat \<Rightarrow> pyfloat" where
  "to64 (Fin a) = Fin (round64 a)"
| "to64 PInf = PInf"
| "to64 NInf = NInf"
| "to64 NaN = NaN"

definition fdiv64 :: "pyfloat \<Rightarrow> pyfloat \<Rightarrow> pyfloat" where
  "fdiv64 a b = to64 (fdiv a b)"

definition fmul64 :: "pyfloat \<Rightarrow> pyfloat \<Rightarrow> pyfloat" where
  "fmul64 a b = to64 (fmul a b)"

subsection \<open>Validation\<close>

text \<open>Python's \<^verbatim>\<open>repr\<close> of a list of plain column names: \<^verbatim>\<open>['A', 'B']\<close>.\<close>

fun py_repr_items :: "string list \<Rightarrow> string" where
  "py_repr_items [] = []"
| "py_repr_items [c] = [CHR 0x27] @ c @ [CHR 0x27]"
| "py_repr_items (c # cs) = [CHR 0x27] @ c @ [CHR 0x27] @ '', '' @ py_repr_items cs"

definition py_repr :: "string list \<Rightarrow> string" where
  "py_repr cs = ''['' @ py_repr_items cs @ '']''"

definition missing_columns :: "dataframe \<Rightarrow> string list \<Rightarrow> string list" where
  "missing_columns df required = filter (\<lambda>c. c \<notin> set (columns df)) required"

definition ensure_columns :: "dataframe \<Rightarrow> string list \<Rightarrow> error + unit" where
  "ensure_columns df required =
     (let missing = missing_columns df required
      in if missing \<noteq> []
         then Inl (DataAnalysisError (''Missing required columns: '' @ py_repr missing))
         else Inr ())"

subsection \<open>Grouping, pivoting and index alignment\<close>

text \<open>
  \<^verbatim>\<open>groupby(key)[val].sum()\<close> and \<^verbatim>\<open>.mean()\<close>: one entry per distinct key, keys in
  ascending order. A Series is the association list of its index labels and values.
\<close>

definition groupby_sum :: "('r \<Rightarrow> 'k::linorder) \<Rightarrow> ('r \<Rightarrow> rat) \<Rightarrow> 'r list \<Rightarrow> ('k \<times> rat) list" where
  "groupby_sum key val rs =
     map (\<lambda>k. (k, sum_list (map val (filter (\<lambda>r. key r = k) rs)))) (sort (remdups (map key rs)))"

definition groupby_mean :: "('r \<Rightarrow> 'k::linorder) \<Rightarrow> ('r \<Rightarrow> rat) \<Rightarrow> 'r list \<Rightarrow> ('k \<times> pyfloat) list" where
  "groupby_mean key val rs =
     map (\<lambda>k. let vs = map val (filter (\<lambda>r. key r = k) rs)
              in (k, Fin (sum_list vs / of_nat (length vs))))
         (sort (remdups (map key rs)))"

text \<open>
  A two-dimensional result: row labels, column labels, and for each row label the
  cells by column label. \<^verbatim>\<open>unstack\<close> turns a Series keyed by pairs into such a
  table; a combination without an entry is an undefined cell.
\<close>

record ('a, 'b) frame =
  f_index :: "'a list"
  f_columns :: "'b list"
  f_cells :: "('a \<times> ('b \<times> pyfloat) list) list"

definition unstack :: "(('a::linorder \<times> 'b::linorder) \<times> rat) list \<Rightarrow> ('a, 'b) frame" where
  "unstack s =
     (let ix = sort (remdups (map (fst \<circ> fst) s));
          cs = sort (remdups (map (snd \<circ> fst) s))
      in \<lparr> f_index = ix, f_columns = cs,
           f_cells = map (\<lambda>r. (r, map (\<lambda>c. (c, case map_of s (r, c) of
                                                    Some v \<Rightarrow> Fin v | None \<Rightarrow> NaN)) cs)) ix \<rparr>)"



definition fillna :: "pyfloat \<Rightarrow> ('a, 'b) frame \<Rightarrow> ('a, 'b) frame" where
  "fillna d t =
     t\<lparr> f_cells := map (\<lambda>(r, cells). (r, map (\<lambda>(c, v). (c, if v = NaN then d else v)) cells))
                       (f_cells t) \<rparr>"


definition setitem_scalar :: "'k list \<Rightarrow> pyfloat \<Rightarrow> ('k \<times> pyfloat) list" where
  "setitem_scalar ix v = map (\<lambda>k. (k, v)) ix"

section \<open>Market metrics\<close>


text \<open>
  The first \<^verbatim>\<open>try\<close> block of the function, lines 37 to 40: the share of every
  segment, the total of the shares, and the percentages, which are the scalar 0 when
  the total is 0 (\<^verbatim>\<open>if total\<close>). The division of a share by the total and the
  multiplication by 100 are float operations. The block yields an exception or the two
  columns. On a table of the types above none of its calls raises, so it always yields
  the columns; a table that makes one of them raise (a \<^verbatim>\<open>Sales_Volume\<close> column that is
  not numeric, two columns of that name) is not one of these tables.
\<close>

definition market_share_block ::
  "row list \<Rightarrow> error + ((string \<times> rat) list \<times> (string \<times> pyfloat) list)" where
  "market_share_block rs =
     (let share = groupby_sum Market_Segment Sales_Volume rs;
          total = sum_list (map snd share);
          pct = (if total \<noteq> 0
                 then map (\<lambda>(k, v). (k, fmul64 (fdiv64 (Fin v) (Fin total)) (Fin 100))) share
                 else setitem_scalar (map fst share) (Fin 0))
      in Inr (share, pct))"


section \<open>Regional performance\<close>

text \<open>
  A row of the grouped \<^verbatim>\<open>(Region, Model)\<close> totals after \<^verbatim>\<open>reset_index()\<close>: its
  position in the grouped table, and the three columns.
\<close>

record top_row =
  tm_idx :: nat
  tm_Region :: string
  tm_Model :: string
  tm_Sales_Volume :: rat

record regional_results =
  sales :: "(string, int) frame"
  top_models :: "top_row list"
  segment_share :: "(string, string) frame"

definition reset_index :: "((string \<times> string) \<times> rat) list \<Rightarrow> top_row list" where
  "reset_index s =
     map (\<lambda>(i, ((r, m), v)). \<lparr> tm_idx = i, tm_Region = r, tm_Model = m, tm_Sales_Volume = v \<rparr>)
         (enumerate 0 s)"

text \<open>
  \<^verbatim>\<open>groupby(key).head(n)\<close>: the rows stay in their order; a row is kept when fewer
  than \<open>n\<close> rows of its group come before it. \<open>seen\<close> holds the keys of the rows kept
  so far.
\<close>

fun groupby_head :: "nat \<Rightarrow> ('r \<Rightarrow> 'k) \<Rightarrow> 'k list \<Rightarrow> 'r list \<Rightarrow> 'r list" where
  "groupby_head n key seen [] = []"
| "groupby_head n key seen (x # xs) =
     (if count_list seen (key x) < n
      then x # groupby_head n key (key x # seen) xs
      else groupby_head n key seen xs)"

text \<open>
  \<^verbatim>\<open>sort_values('Sales_Volume', ascending=False)\<close> is called with the default
  \<^verbatim>\<open>kind='quicksort'\<close>, which pandas documents as not stable. The sort is
  therefore a parameter \<open>srt\<close> of the function; \<open>sort_values_desc\<close> is what every
  sorting algorithm of the library guarantees about it. \<open>stable_sort_desc\<close> is the
  sort that keeps rows of equal volume in their original order.
\<close>

definition sort_values_desc :: "(top_row list \<Rightarrow> top_row list) \<Rightarrow> bool" where
  "sort_values_desc srt \<longleftrightarrow>
     (\<forall>xs. mset (srt xs) = mset xs
         \<and> sorted_wrt (\<lambda>a b. tm_Sales_Volume b \<le> tm_Sales_Volume a) (srt xs))"

definition stable_sort_desc :: "top_row list \<Rightarrow> top_row list" where
  "stable_sort_desc xs = sort_key (\<lambda>r. - tm_Sales_Volume r) xs"

text \<open>
  The first \<^verbatim>\<open>try\<close> block of the function, line 84. It yields an exception or the
  \<open>sales\<close> table; as in \<open>market_share_block\<close>, on a table of the types above its calls
  do not raise.
\<close>

definition regional_sales_block :: "row list \<Rightarrow> error + (string, int) frame" where
  "regional_sales_block rs =
     Inr (unstack (groupby_sum (\<lambda>r. (Region r, Year r)) Sales_Volume rs))"

text \<open>
  An exception of the first block is fatal: the handler of lines 85 and 86 raises
  \<^verbatim>\<open>Failed to compute regional sales\<close>. The handlers of the other two blocks only
  print a warning and have no branch here.
\<close>

definition analyze_regional_performance ::
  "(top_row list \<Rightarrow> top_row list) \<Rightarrow> dataframe option \<Rightarrow> error + regional_results" where
  "analyze_regional_performance srt dfo =
     (case dfo of
        None \<Rightarrow> Inl (DataAnalysisError ''analyze_regional_performance requires a non-empty DataFrame'')
      | Some df \<Rightarrow>
          if empty df
          then Inl (DataAnalysisError ''analyze_regional_performance requires a non-empty DataFrame'')
          else (case ensure_columns df
                       [''Region'', ''Year'', ''Sales_Volume'', ''Model'', ''Market_Segment''] of
             Inl e \<Rightarrow> Inl e
           | Inr _ \<Rightarrow>
               (case regional_sales_block (rows df) of
                  Inl exc \<Rightarrow>
                    Inl (DataAnalysisError (''Failed to compute regional sales: '' @ exception_text exc))
                | Inr sales_table \<Rightarrow>
                    Inr \<lparr> sales = sales_table,
                          top_models =
                            groupby_head 3 tm_Region []
                              (srt (reset_index
                                 (groupby_sum (\<lambda>r. (Region r, Model r)) Sales_Volume (rows df)))),
                          segment_share =
                            fillna (Fin 0)
                              (unstack (groupby_sum (\<lambda>r. (Region r, Market_Segment r))
                                          Sales_Volume (rows df))) \<rparr>)))"

section \<open>Time-series metrics\<close>

record ts_data =
  ts_Sales_Volume :: "(int \<times> rat) list"
  ts_Price_USD :: "(int \<times> pyfloat) list"
  ts_Green_Vehicle :: "(int \<times> rat) list"
  Sales_YoY :: "(int \<times> pyfloat) list"
  Price_YoY :: "(int \<times> pyfloat) list"

record ts_metrics =
  avg_yearly_growth :: pyfloat
  price_trend :: pyfloat
  green_vehicle_growth :: pyfloat

text \<open>\<^verbatim>\<open>Series.pct_change()\<close>: each entry over the one before it, minus one.\<close>

definition pct_change :: "pyfloat list \<Rightarrow> pyfloat list" where
  "pct_change xs =
     (case xs of [] \<Rightarrow> []
      | _ # t \<Rightarrow> NaN # map (\<lambda>(prev, cur). fsub (fdiv cur prev) (Fin 1)) (zip xs t))"

text \<open>\<^verbatim>\<open>.iloc[i]\<close>: a negative position counts from the end.\<close>

definition iloc :: "'a list \<Rightarrow> int \<Rightarrow> error + 'a" where
  "iloc xs i =
     (if 0 \<le> i
      then (if nat i < length xs then Inr (xs ! nat i) else Inl IndexError)
      else (if nat (- i) \<le> length xs then Inr (xs ! (length xs - nat (- i)))
            else Inl IndexError))"

text \<open>
  The \<^verbatim>\<open>try\<close> blocks around the two means guard calls that do not raise. In the
  third one the condition of the conditional expression is evaluated first; an
  \<^verbatim>\<open>IndexError\<close> of either \<^verbatim>\<open>iloc\<close> gives the default 0.
\<close>

definition calculate_time_series_metrics :: "dataframe option \<Rightarrow> error + (ts_data \<times> ts_metrics)" where
  "calculate_time_series_metrics dfo =
     (case dfo of
        None \<Rightarrow> Inl (DataAnalysisError ''calculate_time_series_metrics requires a non-empty DataFrame'')
      | Some df \<Rightarrow>
          if empty df
          then Inl (DataAnalysisError ''calculate_time_series_metrics requires a non-empty DataFrame'')
          else (case ensure_columns df [''Year'', ''Sales_Volume'', ''Price_USD'', ''Green_Vehicle''] of
             Inl e \<Rightarrow> Inl e
           | Inr _ \<Rightarrow>
               let vol = groupby_sum Year Sales_Volume (rows df);
                   price = groupby_mean Year Price_USD (rows df);
                   green = groupby_sum Year (\<lambda>r. if Green_Vehicle r then 1 else 0) (rows df);
                   years = map fst vol;
                   sales_yoy = map (\<lambda>v. fmul v (Fin 100)) (pct_change (map (Fin \<circ> snd) vol));
                   price_yoy = map (\<lambda>v. fmul v (Fin 100)) (pct_change (map snd price));
                   g = map snd green;
                   growth =
                     (case iloc g 0 of
                        Inl _ \<Rightarrow> Fin 0
                      | Inr g0 \<Rightarrow>
                          if 0 < g0
                          then (case iloc g (- 1) of
                                  Inl _ \<Rightarrow> Fin 0
                                | Inr gl \<Rightarrow> fmul (fsub (fdiv (Fin gl) (Fin g0)) (Fin 1)) (Fin 100))
                          else Fin 0)
               in Inr (\<lparr> ts_Sales_Volume = vol, ts_Price_USD = price, ts_Green_Vehicle = green,
                         Sales_YoY = zip years sales_yoy, Price_YoY = zip years price_yoy \<rparr>,
                       \<lparr> avg_yearly_growth = mean_skipna sales_yoy,
                         price_trend = mean_skipna price_yoy,
                         green_vehicle_growth = growth \<rparr>)))"

section \<open>Customer segmentation\<close>

subsection \<open>Ranking and binning\<close>

text \<open>
  \<^verbatim>\<open>Series.rank(method='first')\<close>: the rank of an entry is one more than the number
  of smaller entries plus the number of equal entries before it.
\<close>

definition rank_first :: "rat list \<Rightarrow> rat list" where
  "rank_first xs =
     map (\<lambda>i. of_nat (1 + length (filter (\<lambda>v. v < xs ! i) xs)
                         + length (filter (\<lambda>v. v = xs ! i) (take i xs))))
         [0..<length xs]"

text \<open>The quantile of a sorted, non-empty list, by linear interpolation.\<close>

definition quantile :: "rat list \<Rightarrow> rat \<Rightarrow> rat" where
  "quantile sx q =
     (let p = q * of_nat (length sx - 1);
          lo = nat \<lfloor>p\<rfloor>;
          frac = p - of_nat lo
      in if lo + 1 < length sx then sx ! lo + (sx ! (lo + 1) - sx ! lo) * frac else sx ! lo)"

definition linspace :: "rat \<Rightarrow> rat \<Rightarrow> nat \<Rightarrow> rat list" where
  "linspace a b n = map (\<lambda>k. a + (b - a) * of_nat k / of_nat n) [0..<n + 1]"

text \<open>
  The common part of \<^verbatim>\<open>qcut\<close> and \<^verbatim>\<open>cut\<close>: duplicate edges are refused; a value
  falls into the bin \<open>(e\<^sub>i, e\<^sub>i\<^sub>+\<^sub>1]\<close>, found by counting the edges below it; with
  \<open>include_lowest\<close> the first edge belongs to the first bin. A value outside all
  bins has no category.
\<close>

definition bins_to_cuts :: "rat list \<Rightarrow> rat list \<Rightarrow> bool \<Rightarrow> error + nat option list" where
  "bins_to_cuts x bins include_lowest =
     (if \<not> distinct bins \<and> length bins \<noteq> 2
      then Inl (ValueError ''Bin edges must be unique'')
      else Inr (map (\<lambda>v. let i = (if include_lowest \<and> v = hd bins then 1
                                   else length (filter (\<lambda>e. e < v) bins))
                          in if i = 0 \<or> i = length bins then None else Some (i - 1)) x))"

text \<open>
  \<^verbatim>\<open>qcut(x, q)\<close>: the bin edges are the quantiles of \<open>x\<close> at \<open>q + 1\<close> evenly spaced
  levels; of an empty \<open>x\<close> every quantile is undefined and the edges are refused.
\<close>

definition quantile_edges :: "rat list \<Rightarrow> nat \<Rightarrow> rat list" where
  "quantile_edges x q = map (quantile (sort x)) (linspace 0 1 q)"

definition qcut :: "rat list \<Rightarrow> nat \<Rightarrow> error + nat option list" where
  "qcut x q =
     (if x = [] then Inl (ValueError ''Bin edges must be unique'')
      else bins_to_cuts x (quantile_edges x q) True)"

definition cut :: "rat list \<Rightarrow> nat \<Rightarrow> error + nat option list" where
  "cut x n =
     (if x = [] then Inl (ValueError ''Cannot cut empty array'')
      else
        let mn = fold min (tl x) (hd x);
            mx = fold max (tl x) (hd x);
            bins =
              (if mn = mx
               then linspace (mn - (if mn \<noteq> 0 then 1 / 1000 * \<bar>mn\<bar> else 1 / 1000))
                             (mx + (if mx \<noteq> 0 then 1 / 1000 * \<bar>mx\<bar> else 1 / 1000)) n
               else let b = linspace mn mx n
                    in (hd b - (mx - mn) * (1 / 1000)) # tl b)
        in bins_to_cuts x bins False)"

definition label_cells :: "string list \<Rightarrow> nat option list \<Rightarrow> cell list" where
  "label_cells labels ids = map (\<lambda>i. case i of None \<Rightarrow> Null | Some k \<Rightarrow> Str (labels ! k)) ids"

definition price_labels :: "string list" where
  "price_labels = [''Budget'', ''Value'', ''Mid-Range'', ''Premium'', ''Luxury'']"

definition freq_labels :: "string list" where
  "freq_labels = [''Low'', ''Medium'', ''High'']"

text \<open>
  \<^verbatim>\<open>x.mode().iat[0] if not x.mode().empty else np.nan\<close>: the modes of the recorded
  values in ascending order, the first of them, none when nothing is recorded.
\<close>

definition mode_first :: "string option list \<Rightarrow> string option" where
  "mode_first vs =
     (let xs = List.map_filter id vs;
          m = fold max (map (count_list xs) xs) 0;
          modes = sort (remdups (filter (\<lambda>v. count_list xs v = m) xs))
      in case modes of [] \<Rightarrow> None | t # _ \<Rightarrow> Some t)"

subsection \<open>The operation\<close>

text \<open>
  \<^verbatim>\<open>segments[name] = values\<close>: the column is replaced when the table has one of that
  name and appended otherwise.
\<close>

definition setitem_column :: "string \<Rightarrow> cell list \<Rightarrow> dataframe \<Rightarrow> dataframe" where
  "setitem_column name cells df =
     df\<lparr> columns := (if name \<in> set (columns df) then columns df else columns df @ [name]),
         rows := map (\<lambda>(r, c). r\<lparr> other := AList.update name c (other r) \<rparr>) (zip (rows df) cells) \<rparr>"

text \<open>
  The two tables that the function holds: its argument and the deep copy
  \<^verbatim>\<open>segments = df.copy()\<close> that it fills and returns.
\<close>

record store =
  arg_df :: dataframe
  segments :: dataframe

text \<open>
  The first \<^verbatim>\<open>try\<close>: equal-frequency bins of the ranks; on any exception
  equal-width bins of the prices, whose own exception is not caught.
\<close>

definition price_category :: "rat list \<Rightarrow> error + cell list" where
  "price_category prices =
     (case qcut (rank_first prices) 5 of
        Inr ids \<Rightarrow> Inr (label_cells price_labels ids)
      | Inl _ \<Rightarrow> (case cut prices 5 of
                    Inr ids \<Rightarrow> Inr (label_cells price_labels ids)
                  | Inl e \<Rightarrow> Inl e))"

text \<open>
  The second \<^verbatim>\<open>try\<close>: the per-customer aggregate is a Series indexed by
  \<^verbatim>\<open>Customer_ID\<close>; it is assigned to the column as it is, so it is aligned on the
  index labels of the rows. The order of the aggregate's keys plays no role.
\<close>

definition primary_type_agg :: "row list \<Rightarrow> (label \<times> string option) list" where
  "primary_type_agg rs =
     map (\<lambda>c. (c, mode_first (map Vehicle_Type (filter (\<lambda>r. Customer_ID r = c) rs))))
         (remdups (map Customer_ID rs))"

definition primary_type :: "row list \<Rightarrow> row list \<Rightarrow> cell list" where
  "primary_type rs target =
     map (\<lambda>r. case map_of (primary_type_agg rs) (idx r) of
                Some (Some t) \<Rightarrow> Str t
              | _ \<Rightarrow> Null) target"

text \<open>
  The third \<^verbatim>\<open>try\<close>: every row gets the number of rows of its customer (each
  \<^verbatim>\<open>Customer_ID\<close> of the table is a key of \<^verbatim>\<open>freq_map\<close>); the counts are ranked
  and split into three bins; on any exception the column is \<^verbatim>\<open>'Unknown'\<close>.
\<close>

definition purchase_frequency :: "row list \<Rightarrow> row list \<Rightarrow> cell list" where
  "purchase_frequency rs target =
     (let freq_map = map (\<lambda>c. (c, length (filter (\<lambda>r. Customer_ID r = c) rs)))
                         (remdups (map Customer_ID rs));
          counts = map (\<lambda>r. case map_of freq_map (Customer_ID r) of
                               Some n \<Rightarrow> of_nat n | None \<Rightarrow> 0) target
      in case qcut (rank_first counts) 3 of
           Inr ids \<Rightarrow> label_cells freq_labels ids
         | Inl _ \<Rightarrow> map (\<lambda>_. Str ''Unknown'') target)"

text \<open>The result is the pair of the argument after the call and the returned table.\<close>

definition segment_customer_base :: "dataframe option \<Rightarrow> error + (dataframe \<times> dataframe)" where
  "segment_customer_base dfo =
     (case dfo of
        None \<Rightarrow> Inl (DataAnalysisError ''segment_customer_base requires a non-empty DataFrame'')
      | Some df \<Rightarrow>
          if empty df
          then Inl (DataAnalysisError ''segment_customer_base requires a non-empty DataFrame'')
          else (case ensure_columns df [''Price_USD'', ''Customer_ID'', ''Vehicle_Type''] of
             Inl e \<Rightarrow> Inl e
           | Inr _ \<Rightarrow>
               let st0 = \<lparr> arg_df = df, segments = df \<rparr>
               in (case price_category (map Price_USD (rows (arg_df st0))) of
                     Inl e \<Rightarrow> Inl e
                   | Inr pc \<Rightarrow>
                       let st1 = st0\<lparr> segments := setitem_column ''Price_Category'' pc (segments st0) \<rparr>;
                           st2 = st1\<lparr> segments :=
                                   setitem_column ''Primary_Type''
                                     (primary_type (rows (arg_df st1)) (rows (segments st1)))
                                     (segments st1) \<rparr>;
                           st3 = st2\<lparr> segments :=
                                   setitem_column ''Purchase_Frequency''
                                     (purchase_frequency (rows (arg_df st2)) (rows (segments st2)))
                                     (segments st2) \<rparr>
                       in Inr (arg_df st3, segments st3))))"

section \<open>The four operations, uniformly\<close>

datatype operation = Market_Metrics | Regional_Performance | Time_Series | Customer_Base


fun op_required :: "operation \<Rightarrow> string list" where
  "op_required Market_Metrics = [''Market_Segment'', ''Sales_Volume'', ''Price_USD'', ''Year'']"
| "op_required Regional_Performance =
     [''Region'', ''Year'', ''Sales_Volume'', ''Model'', ''Market_Segment'']"
| "op_required Time_Series = [''Year'', ''Sales_Volume'', ''Price_USD'', ''Green_Vehicle'']"
| "op_required Customer_Base = [''Price_USD'', ''Customer_ID'', ''Vehicle_Type'']"




section \<open>Example tables\<close>

definition sale ::
  "int \<Rightarrow> string \<Rightarrow> int \<Rightarrow> string \<Rightarrow> string \<Rightarrow> rat \<Rightarrow> rat \<Rightarrow> label \<Rightarrow> string option \<Rightarrow> bool \<Rightarrow> row" where
  "sale i m y r s v p c t g =
     \<lparr> idx = IntL i, Model = m, Year = y, Region = r, Market_Segment = s, Sales_Volume = v,
       Price_USD = p, Customer_ID = c, Vehicle_Type = t, Green_Vehicle = g, other = [] \<rparr>"

definition all_columns :: "string list" where
  "all_columns = [''Model'', ''Year'', ''Region'', ''Market_Segment'', ''Sales_Volume'',
     ''Price_USD'', ''Customer_ID'', ''Vehicle_Type'', ''Green_Vehicle'']"

text \<open>Three sales of one customer, in two segments, two regions and two years.\<close>

definition three_sales :: dataframe where
  "three_sales = \<lparr> columns = all_columns, rows =
     [sale 0 ''X5'' 2020 ''EU'' ''A'' 40 100 (StrL ''C1'') (Some ''Sedan'') True,
      sale 1 ''X3'' 2021 ''EU'' ''A'' 60 200 (StrL ''C1'') (Some ''Sedan'') True,
      sale 2 ''X5'' 2021 ''US'' ''B'' 300 300 (StrL ''C1'') (Some ''SUV'') True] \<rparr>"



text \<open>A single sale.\<close>

definition one_sale :: dataframe where
  "one_sale = \<lparr> columns = all_columns, rows =
     [sale 0 ''X5'' 2020 ''EU'' ''A'' 40 100 (StrL ''C1'') (Some ''Sedan'') True] \<rparr>"


section \<open>The quantities that the properties speak of\<close>




text \<open>
  The segments of a table, the sales volume of a segment and of the whole table.
\<close>

definition segments_of :: "dataframe \<Rightarrow> string set" where
  "segments_of df = Market_Segment ` set (rows df)"








text \<open>
  The cell of a two-dimensional result at a row label and a column label; the regions
  of a table and the sales volume of a region in a segment.
\<close>

definition cell_at :: "('a, 'b) frame \<Rightarrow> 'a \<Rightarrow> 'b \<Rightarrow> pyfloat option" where
  "cell_at t r c = (case map_of (f_cells t) r of None \<Rightarrow> None | Some cells \<Rightarrow> map_of cells c)"

definition regions_of :: "dataframe \<Rightarrow> string set" where
  "regions_of df = Region ` set (rows df)"

definition region_segment_volume :: "dataframe \<Rightarrow> string \<Rightarrow> string \<Rightarrow> rat" where
  "region_segment_volume df r s =
     sum_list (map Sales_Volume (filter (\<lambda>x. Region x = r \<and> Market_Segment x = s) (rows df)))"





definition pct_growth :: "pyfloat \<Rightarrow> pyfloat \<Rightarrow> pyfloat" where
  "pct_growth l p = fmul (fdiv (fsub l p) p) (Fin 100)"



text \<open>
  The models sold in a region and the sales volume of a model in a region; the grouped
  \<open>(Region, Model)\<close> totals that are sorted; and the \<open>top_models\<close> result alone.
\<close>

definition models_of :: "dataframe \<Rightarrow> string \<Rightarrow> string set" where
  "models_of df r = Model ` {x \<in> set (rows df). Region x = r}"

definition region_model_volume :: "dataframe \<Rightarrow> string \<Rightarrow> string \<Rightarrow> rat" where
  "region_model_volume df r m =
     sum_list (map Sales_Volume (filter (\<lambda>x. Region x = r \<and> Model x = m) (rows df)))"

definition grouped_models :: "dataframe \<Rightarrow> top_row list" where
  "grouped_models df =
     reset_index (groupby_sum (\<lambda>r. (Region r, Model r)) Sales_Volume (rows df))"

definition top_models_by :: "(top_row list \<Rightarrow> top_row list) \<Rightarrow> dataframe \<Rightarrow> top_row list option" where
  "top_models_by srt df =
     (case analyze_regional_performance srt (Some df) of
        Inr res \<Rightarrow> Some (top_models res) | Inl _ \<Rightarrow> None)"

text \<open>
  A sort by descending volume that leaves rows of equal volume in the reverse of their
  original order. It has the property \<open>sort_values_desc\<close>, as an unstable sort may.
\<close>

definition reverse_ties_sort :: "top_row list \<Rightarrow> top_row list" where
  "reverse_ties_sort xs = rev (sort_key tm_Sales_Volume xs)"

text \<open>
  Four models in one region, with four different volumes, and with two pairs of equal
  volumes.
\<close>

definition four_models :: dataframe where
  "four_models = \<lparr> columns = all_columns, rows =
     [sale 0 ''M1'' 2020 ''EU'' ''A'' 10 100 (StrL ''C1'') (Some ''Sedan'') False,
      sale 1 ''M2'' 2020 ''EU'' ''A'' 40 100 (StrL ''C2'') (Some ''Sedan'') False,
      sale 2 ''M3'' 2020 ''EU'' ''A'' 30 100 (StrL ''C3'') (Some ''Sedan'') False,
      sale 3 ''M4'' 2020 ''EU'' ''A'' 20 100 (StrL ''C4'') (Some ''Sedan'') False] \<rparr>"

definition tie_pairs :: dataframe where
  "tie_pairs = \<lparr> columns = all_columns, rows =
     [sale 0 ''M1'' 2020 ''EU'' ''A'' 10 100 (StrL ''C1'') (Some ''Sedan'') False,
      sale 1 ''M2'' 2020 ''EU'' ''A'' 10 100 (StrL ''C2'') (Some ''Sedan'') False,
      sale 2 ''M3'' 2020 ''EU'' ''A'' 20 100 (StrL ''C3'') (Some ''Sedan'') False,
      sale 3 ''M4'' 2020 ''EU'' ''A'' 20 100 (StrL ''C4'') (Some ''Sedan'') False] \<rparr>"

text \<open>
  A column of a table outside the nine typed ones, row by row; the rows of a table
  without such columns; the names of the derived columns; and the table that
  \<open>segment_customer_base\<close> returns.
\<close>

definition get_column :: "string \<Rightarrow> dataframe \<Rightarrow> cell option list" where
  "get_column c df = map (\<lambda>r. map_of (other r) c) (rows df)"



definition segmented :: "dataframe \<Rightarrow> dataframe option" where
  "segmented df =
     (case segment_customer_base (Some df) of Inr (_, seg) \<Rightarrow> Some seg | Inl _ \<Rightarrow> None)"


text \<open>
  Three sales whose customer identifiers are integers that also occur as index labels.
\<close>

definition swapped_ids :: dataframe where
  "swapped_ids = \<lparr> columns = all_columns, rows =
     [sale 0 ''X5'' 2020 ''EU'' ''A'' 40 100 (IntL 1) (Some ''Sedan'') True,
      sale 1 ''X3'' 2021 ''EU'' ''A'' 60 200 (IntL 1) (Some ''Sedan'') True,
      sale 2 ''X5'' 2021 ''US'' ''B'' 300 300 (IntL 0) (Some ''SUV'') True] \<rparr>"

text \<open>
  The rank of the entry at a position as a natural number; the ranks of the prices of
  a table; and the bin of a rank among \<open>n\<close> ranks split into five equal-frequency bins,
  in closed form.
\<close>

definition rank_nat :: "rat list \<Rightarrow> nat \<Rightarrow> nat" where
  "rank_nat xs i = 1 + length (filter (\<lambda>v. v < xs ! i) xs)
                     + length (filter (\<lambda>v. v = xs ! i) (take i xs))"

definition price_ranks :: "dataframe \<Rightarrow> rat list" where
  "price_ranks df = rank_first (map Price_USD (rows df))"

definition equal_frequency_bin :: "nat \<Rightarrow> rat \<Rightarrow> nat" where
  "equal_frequency_bin n r = (if r = 1 then 0 else nat \<lceil>5 * (r - 1) / of_nat (n - 1)\<rceil> - 1)"

text \<open>Six sales with six prices, two of them equal.\<close>

definition six_prices :: dataframe where
  "six_prices = \<lparr> columns = all_columns, rows =
     [sale 0 ''X5'' 2020 ''EU'' ''A'' 1 300 (StrL ''C1'') (Some ''SUV'') False,
      sale 1 ''X1'' 2020 ''EU'' ''A'' 1 100 (StrL ''C2'') (Some ''Sedan'') False,
      sale 2 ''X1'' 2020 ''EU'' ''A'' 1 100 (StrL ''C3'') (Some ''Sedan'') False,
      sale 3 ''X3'' 2020 ''EU'' ''A'' 1 200 (StrL ''C4'') (Some ''SUV'') False,
      sale 4 ''X7'' 2020 ''EU'' ''A'' 1 500 (StrL ''C5'') (Some ''SUV'') False,
      sale 5 ''X6'' 2020 ''EU'' ''A'' 1 400 (StrL ''C6'') (Some ''SUV'') False] \<rparr>"

section \<open>Properties of the validation\<close>







lemma ensure_columns_ok:
  "missing_columns df required = [] \<Longrightarrow> ensure_columns df required = Inr ()"
  by (simp add: ensure_columns_def)





lemma linspace_distinct:
  assumes "a \<noteq> b" "0 < n"
  shows "distinct (linspace a b n)"
proof -
  have "inj (\<lambda>k. a + (b - a) * of_nat k / of_nat n)"
  proof (rule injI)
    fix x y :: nat
    assume "a + (b - a) * of_nat x / of_nat n = a + (b - a) * of_nat y / of_nat n"
    then have "(b - a) * of_nat x / of_nat n = (b - a) * of_nat y / of_nat n" by simp
    with assms(2) have "(b - a) * of_nat x = (b - a) * of_nat y" by simp
    with assms(1) show "x = y" by simp
  qed
  then have "inj_on (\<lambda>k. a + (b - a) * of_nat k / of_nat n) (set [0..<n + 1])"
    by (rule inj_on_subset) simp
  then show ?thesis
    by (simp only: linspace_def distinct_map distinct_upt simp_thms)
qed

lemma linspace_Cons:
  "linspace a b n = a # map (\<lambda>k. a + (b - a) * of_nat k / of_nat n) [1..<n + 1]"
proof -
  have "[0..<n + 1] = 0 # [1..<n + 1]" by (simp add: upt_rec)
  then show ?thesis by (simp add: linspace_def)
qed

lemma length_linspace: "length (linspace a b n) = n + 1"
  by (simp add: linspace_def)

lemma fold_min_le: "fold min xs (a::rat) \<le> a"
  by (induction xs arbitrary: a) (auto intro: order_trans min.cobounded2)

lemma fold_max_ge: "(a::rat) \<le> fold max xs a"
  by (induction xs arbitrary: a) (auto intro: order_trans max.cobounded2)

lemma cut_bins_distinct:
  assumes "mn < mx" "0 < n"
  shows "distinct ((hd (linspace mn mx n) - (mx - mn) * (1 / 1000)) # tl (linspace mn mx n))"
proof -
  define f where "f = (\<lambda>k. mn + (mx - mn) * of_nat k / of_nat n)"
  define lowest where "lowest = mn - (mx - mn) * (1 / 1000)"
  have ls: "linspace mn mx n = mn # map f [1..<n + 1]"
    unfolding f_def by (rule linspace_Cons)
  have "distinct (linspace mn mx n)" using assms by (simp add: linspace_distinct)
  then have d: "distinct (map f [1..<n + 1])" by (simp add: ls)
  have "lowest < mn" using assms by (simp add: lowest_def)
  moreover have "mn \<le> f k" for k using assms by (simp add: f_def)
  ultimately have "lowest \<noteq> f k" for k by (metis not_le)
  then have "lowest \<notin> set (map f [1..<n + 1])" by auto
  with d have "distinct (lowest # map f [1..<n + 1])" by simp
  then show ?thesis by (simp add: ls lowest_def)
qed

lemma bins_to_cuts_returns:
  "distinct bins \<Longrightarrow> \<exists>ids. bins_to_cuts x bins b = Inr ids \<and> length ids = length x"
  by (simp add: bins_to_cuts_def)

lemma cut_returns:
  assumes "x \<noteq> []" "0 < n"
  shows "\<exists>ids. cut x n = Inr ids \<and> length ids = length x"
proof -
  define mn where "mn = fold min (tl x) (hd x)"
  define mx where "mx = fold max (tl x) (hd x)"
  define bins where "bins =
     (if mn = mx
      then linspace (mn - (if mn \<noteq> 0 then 1 / 1000 * \<bar>mn\<bar> else 1 / 1000))
                    (mx + (if mx \<noteq> 0 then 1 / 1000 * \<bar>mx\<bar> else 1 / 1000)) n
      else let b = linspace mn mx n
           in (hd b - (mx - mn) * (1 / 1000)) # tl b)"
  have c: "cut x n = bins_to_cuts x bins False"
    using assms(1) by (simp add: cut_def bins_def mn_def mx_def Let_def)
  have le: "mn \<le> mx"
    using fold_min_le [of "tl x" "hd x"] fold_max_ge [of "hd x" "tl x"]
    by (simp add: mn_def mx_def)
  have "distinct bins"
  proof (cases "mn = mx")
    case True
    have "mn - (if mn \<noteq> 0 then 1 / 1000 * \<bar>mn\<bar> else 1 / 1000) < mn" by simp
    moreover have "mx < mx + (if mx \<noteq> 0 then 1 / 1000 * \<bar>mx\<bar> else 1 / 1000)" by simp
    ultimately have "mn - (if mn \<noteq> 0 then 1 / 1000 * \<bar>mn\<bar> else 1 / 1000)
        \<noteq> mx + (if mx \<noteq> 0 then 1 / 1000 * \<bar>mx\<bar> else 1 / 1000)"
      using le by linarith
    then have "distinct (linspace (mn - (if mn \<noteq> 0 then 1 / 1000 * \<bar>mn\<bar> else 1 / 1000))
        (mx + (if mx \<noteq> 0 then 1 / 1000 * \<bar>mx\<bar> else 1 / 1000)) n)"
      using assms(2) by (rule linspace_distinct)
    then show ?thesis unfolding bins_def using True by (simp only: if_True refl)
  next
    case False
    with le have "mn < mx" by simp
    from cut_bins_distinct [OF this assms(2)] False show ?thesis
      unfolding bins_def Let_def by (simp only: if_False)
  qed
  then show ?thesis unfolding c by (rule bins_to_cuts_returns)
qed

lemma price_category_returns:
  assumes "x \<noteq> []"
  shows "\<exists>cs. price_category x = Inr cs"
proof (cases "qcut (rank_first x) 5")
  case (Inr ids)
  then show ?thesis by (simp add: price_category_def)
next
  case (Inl e)
  from cut_returns [OF assms, of 5] obtain ids where "cut x 5 = Inr ids" by auto
  with Inl show ?thesis by (simp add: price_category_def)
qed

text \<open>
  On a table of the modelled types the two blocks with a fatal handler return: the
  errors \<^verbatim>\<open>Failed to compute market share\<close> and \<^verbatim>\<open>Failed to compute regional sales\<close>
  come only from tables outside the model.
\<close>

lemma fatal_blocks_return:
  "\<exists>r. market_share_block rs = Inr r" "\<exists>t. regional_sales_block rs = Inr t"
  by (simp_all add: market_share_block_def regional_sales_block_def Let_def)




section \<open>Time-series metrics\<close>













lemma single_year_keys:
  assumes "card (Year ` set rs) = 1"
  shows "\<exists>y. sort (remdups (map Year rs)) = [y]"
proof -
  have "length (sort (remdups (map Year rs))) = 1"
    using assms by (simp add: length_remdups_card_conv)
  then show ?thesis by (cases "sort (remdups (map Year rs))") auto
qed

lemma mean_skipna_single_NaN: "mean_skipna [NaN] = NaN"
  by (simp add: mean_skipna_def)

text \<open>
  Claim C10. On a non-empty table with the required columns and exactly one distinct
  \<open>Year\<close>, \<open>calculate_time_series_metrics\<close> returns, and both
  \<open>avg_yearly_growth\<close> and \<open>price_trend\<close> are NaN, not 0: the only entry of each
  percent-change series is undefined, the mean of no defined entry is NaN, and no
  exception takes the default-to-0 branch.
\<close>

theorem single_year_trends_undefined:
  assumes "\<not> empty df" and "missing_columns df (op_required Time_Series) = []"
    and "card (Year ` set (rows df)) = 1"
  shows "\<exists>ts m. calculate_time_series_metrics (Some df) = Inr (ts, m)
          \<and> avg_yearly_growth m = NaN \<and> price_trend m = NaN
          \<and> avg_yearly_growth m \<noteq> Fin 0 \<and> price_trend m \<noteq> Fin 0"
proof -
  have e: "ensure_columns df [''Year'', ''Sales_Volume'', ''Price_USD'', ''Green_Vehicle''] = Inr ()"
    using assms(2) ensure_columns_ok [of df "op_required Time_Series"] by simp
  from single_year_keys [OF assms(3)] obtain y where y: "sort (remdups (map Year (rows df))) = [y]"
    by blast
  have v: "pct_change (map (Fin \<circ> snd) (groupby_sum Year Sales_Volume (rows df))) = [NaN]"
    by (simp add: groupby_sum_def y pct_change_def)
  have p: "pct_change (map snd (groupby_mean Year Price_USD (rows df))) = [NaN]"
    by (simp add: groupby_mean_def y pct_change_def Let_def)
  show ?thesis
    using assms(1) e
    by (simp add: calculate_time_series_metrics_def Let_def v p mean_skipna_single_NaN)
qed

theorem single_year_trends_undefined_witness:
  "\<not> empty one_sale \<and> missing_columns one_sale (op_required Time_Series) = []
   \<and> card (Year ` set (rows one_sale)) = 1
   \<and> (\<exists>ts m. calculate_time_series_metrics (Some one_sale) = Inr (ts, m)
          \<and> avg_yearly_growth m = NaN \<and> price_trend m = NaN
          \<and> avg_yearly_growth m \<noteq> Fin 0 \<and> price_trend m \<noteq> Fin 0)"
proof -
  have a: "\<not> empty one_sale" by code_simp
  have b: "missing_columns one_sale (op_required Time_Series) = []" by code_simp
  have c: "card (Year ` set (rows one_sale)) = 1" by code_simp
  from a b c single_year_trends_undefined [OF a b c] show ?thesis by blast
qed

section \<open>Rounding to binary64\<close>




lemma exponent_of_less:
  assumes "0 < a"
  shows "a < 2 powi (exponent_of a + 1)"
proof -
  obtain p q where pq: "quotient_of a = (p, q)" by (cases "quotient_of a")
  have q: "0 < q" using quotient_of_denom_pos [OF pq] .
  have a: "a = of_int p / of_int q" using quotient_of_div [OF pq] .
  have p: "0 < p" using assms q by (simp add: a zero_less_divide_iff)
  define e where "e = bitlen p - bitlen q"
  have "a < 2 powi (e + 1)"
  proof -
    from bitlen_bounds [OF p] have up: "p < 2 ^ nat (bitlen p)" by simp
    from bitlen_bounds [OF q] have lq: "2 ^ nat (bitlen q - 1) \<le> q" by simp
    have bp: "0 \<le> bitlen p" by (rule bitlen_nonneg)
    have bq: "1 \<le> bitlen q" using q by (simp add: bitlen_alt_def)
    have "of_int p / of_int q < (2::rat) ^ nat (bitlen p) / 2 ^ nat (bitlen q - 1)"
    proof (rule frac_less)
      show "(0::rat) \<le> of_int p" using p by simp
      from up have "(of_int p :: rat) < of_int (2 ^ nat (bitlen p))" by (simp only: of_int_less_iff)
      then show "(of_int p :: rat) < 2 ^ nat (bitlen p)" by simp
      show "(0::rat) < 2 ^ nat (bitlen q - 1)" by simp
      from lq have "(of_int (2 ^ nat (bitlen q - 1)) :: rat) \<le> of_int q" by (simp only: of_int_le_iff)
      then show "(2::rat) ^ nat (bitlen q - 1) \<le> of_int q" by simp
    qed
    also have "\<dots> = 2 powi (bitlen p) / 2 powi (bitlen q - 1)"
      using bp bq by (simp add: power_int_def)
    also have "\<dots> = 2 powi (bitlen p - (bitlen q - 1))"
      by (rule power_int_diff [symmetric]) simp
    also have "bitlen p - (bitlen q - 1) = e + 1" by (simp add: e_def)
    finally show ?thesis by (simp only: a)
  qed
  moreover have "a < 2 powi e" if "\<not> 2 powi e \<le> a" using that by simp
  ultimately show ?thesis by (auto simp: exponent_of_def pq e_def Let_def)
qed

lemma round64_tenth: "round64 (1 / 10) = 3602879701896397 / 2 ^ 55"
  by code_simp





section \<open>Market share\<close>


lemma groupby_sum_keys: "map fst (groupby_sum key val rs) = sort (remdups (map key rs))"
  by (simp add: groupby_sum_def o_def)

lemma groupby_sum_lookup:
  "k \<in> key ` set rs \<Longrightarrow>
   map_of (groupby_sum key val rs) k = Some (sum_list (map val (filter (\<lambda>r. key r = k) rs)))"
  by (simp add: groupby_sum_def map_of_map_restrict)













section \<open>Regional segment share\<close>

lemma groupby_sum_lookup_None:
  "k \<notin> key ` set rs \<Longrightarrow> map_of (groupby_sum key val rs) k = None"
  by (simp add: groupby_sum_def map_of_map_restrict)

lemma unstack_index:
  "set (f_index (unstack s)) = fst ` fst ` set s" "distinct (f_index (unstack s))"
  "set (f_columns (unstack s)) = snd ` fst ` set s" "distinct (f_columns (unstack s))"
  by (simp_all add: unstack_def Let_def image_image)

lemma cell_at_unstack:
  assumes "r \<in> fst ` fst ` set s" "c \<in> snd ` fst ` set s"
  shows "cell_at (unstack s) r c = Some (case map_of s (r, c) of Some v \<Rightarrow> Fin v | None \<Rightarrow> NaN)"
proof -
  have r: "r \<in> set (sort (remdups (map (fst \<circ> fst) s)))" using assms(1) by (simp add: image_image)
  have c: "c \<in> set (sort (remdups (map (snd \<circ> fst) s)))" using assms(2) by (simp add: image_image)
  show ?thesis
    unfolding cell_at_def unstack_def Let_def
    using r c by (simp add: map_of_map_restrict del: set_sort set_remdups set_map)
qed

lemma cell_at_fillna:
  "cell_at (fillna d t) r c = map_option (\<lambda>v. if v = NaN then d else v) (cell_at t r c)"
proof -
  have 1: "map_of (map (\<lambda>(r, cells). (r, map (\<lambda>(c, v). (c, if v = NaN then d else v)) cells)) xs) r
      = map_option (map (\<lambda>(c, v). (c, if v = NaN then d else v))) (map_of xs r)" for xs
    by (simp add: map_of_map)
  have 2: "map_of (map (\<lambda>(c, v). (c, if v = NaN then d else v)) ys) c
      = map_option (\<lambda>v. if v = NaN then d else v) (map_of ys c)" for ys
    by (simp add: map_of_map)
  show ?thesis
    by (simp add: cell_at_def fillna_def 1 2 split: option.splits)
qed

lemma groupby_sum_set_keys: "fst ` set (groupby_sum key val rs) = key ` set rs"
  by (simp add: groupby_sum_def image_image)

text \<open>
  Claim C6. On a non-empty table with the required columns the \<open>segment_share\<close> result
  of \<open>analyze_regional_performance\<close> has the regions of the input as rows and its
  market segments as columns, and every cell is defined: a combination of region and
  segment that the input has holds its summed \<open>Sales_Volume\<close>, a combination that
  the input lacks holds 0. This holds whatever the sort of \<open>top_models\<close> does.
\<close>

theorem segment_share_filled:
  assumes "\<not> empty df" and "missing_columns df (op_required Regional_Performance) = []"
  shows "\<exists>res. analyze_regional_performance srt (Some df) = Inr res
          \<and> distinct (f_index (segment_share res))
          \<and> set (f_index (segment_share res)) = regions_of df
          \<and> distinct (f_columns (segment_share res))
          \<and> set (f_columns (segment_share res)) = segments_of df
          \<and> (\<forall>r \<in> regions_of df. \<forall>s \<in> segments_of df.
                cell_at (segment_share res) r s =
                  Some (Fin (if \<exists>x \<in> set (rows df). Region x = r \<and> Market_Segment x = s
                             then region_segment_volume df r s else 0)))"
proof -
  let ?g = "groupby_sum (\<lambda>r. (Region r, Market_Segment r)) Sales_Volume (rows df)"
  have e: "ensure_columns df [''Region'', ''Year'', ''Sales_Volume'', ''Model'', ''Market_Segment''] = Inr ()"
    using assms(2) ensure_columns_ok [of df "op_required Regional_Performance"] by simp
  define res where "res = \<lparr> sales = unstack (groupby_sum (\<lambda>r. (Region r, Year r)) Sales_Volume (rows df)),
                     top_models =
                       groupby_head 3 tm_Region []
                         (srt (reset_index
                            (groupby_sum (\<lambda>r. (Region r, Model r)) Sales_Volume (rows df)))),
                     segment_share = fillna (Fin 0) (unstack ?g) \<rparr>"
  have a: "analyze_regional_performance srt (Some df) = Inr res"
    using assms(1) e by (simp add: analyze_regional_performance_def regional_sales_block_def res_def)
  have s: "segment_share res = fillna (Fin 0) (unstack ?g)" by (simp add: res_def)
  have k1: "fst ` fst ` set ?g = regions_of df"
    by (simp add: groupby_sum_set_keys image_image regions_of_def)
  have k2: "snd ` fst ` set ?g = segments_of df"
    by (simp add: groupby_sum_set_keys image_image segments_of_def)
  have 1: "distinct (f_index (segment_share res))" "distinct (f_columns (segment_share res))"
    by (simp_all add: s fillna_def unstack_index)
  have 2: "set (f_index (segment_share res)) = regions_of df"
    by (simp add: s fillna_def unstack_index k1)
  have 3: "set (f_columns (segment_share res)) = segments_of df"
    by (simp add: s fillna_def unstack_index k2)
  have 4: "\<forall>r \<in> regions_of df. \<forall>s \<in> segments_of df.
                cell_at (segment_share res) r s =
                  Some (Fin (if \<exists>x \<in> set (rows df). Region x = r \<and> Market_Segment x = s
                             then region_segment_volume df r s else 0))"
  proof (intro ballI)
    fix r c assume r: "r \<in> regions_of df" and c: "c \<in> segments_of df"
    have u: "cell_at (unstack ?g) r c = Some (case map_of ?g (r, c) of Some v \<Rightarrow> Fin v | None \<Rightarrow> NaN)"
      using r c by (intro cell_at_unstack) (simp_all only: k1 k2)
    show "cell_at (segment_share res) r c =
                  Some (Fin (if \<exists>x \<in> set (rows df). Region x = r \<and> Market_Segment x = c
                             then region_segment_volume df r c else 0))"
    proof (cases "\<exists>x \<in> set (rows df). Region x = r \<and> Market_Segment x = c")
      case True
      then have "(r, c) \<in> (\<lambda>r. (Region r, Market_Segment r)) ` set (rows df)" by force
      then have "map_of ?g (r, c) = Some (region_segment_volume df r c)"
        by (simp add: groupby_sum_lookup region_segment_volume_def)
      with True u show ?thesis by (simp add: s cell_at_fillna)
    next
      case False
      then have "(r, c) \<notin> (\<lambda>r. (Region r, Market_Segment r)) ` set (rows df)" by force
      then have "map_of ?g (r, c) = None" by (rule groupby_sum_lookup_None)
      with u have "cell_at (segment_share res) r c = Some (Fin 0)" by (simp add: s cell_at_fillna)
      with False show ?thesis by (simp only: if_False)
    qed
  qed
  from a 1 2 3 4 show ?thesis by blast
qed


theorem segment_share_filled_witness:
  "\<not> empty three_sales \<and> missing_columns three_sales (op_required Regional_Performance) = []
   \<and> regions_of three_sales = {''EU'', ''US''} \<and> segments_of three_sales = {''A'', ''B''}
   \<and> (\<exists>res. analyze_regional_performance stable_sort_desc (Some three_sales) = Inr res
         \<and> cell_at (segment_share res) ''EU'' ''A'' = Some (Fin 100)
         \<and> cell_at (segment_share res) ''EU'' ''B'' = Some (Fin 0)
         \<and> cell_at (segment_share res) ''US'' ''A'' = Some (Fin 0)
         \<and> cell_at (segment_share res) ''US'' ''B'' = Some (Fin 300))"
proof -
  have a: "\<not> empty three_sales" by code_simp
  have b: "missing_columns three_sales (op_required Regional_Performance) = []" by code_simp
  have c: "regions_of three_sales = {''EU'', ''US''}" by code_simp
  have d: "segments_of three_sales = {''A'', ''B''}" by code_simp
  have v: "(if \<exists>x \<in> set (rows three_sales). Region x = ''EU'' \<and> Market_Segment x = ''A''
            then region_segment_volume three_sales ''EU'' ''A'' else 0) = 100"
     "(if \<exists>x \<in> set (rows three_sales). Region x = ''EU'' \<and> Market_Segment x = ''B''
            then region_segment_volume three_sales ''EU'' ''B'' else 0) = 0"
     "(if \<exists>x \<in> set (rows three_sales). Region x = ''US'' \<and> Market_Segment x = ''A''
            then region_segment_volume three_sales ''US'' ''A'' else 0) = 0"
     "(if \<exists>x \<in> set (rows three_sales). Region x = ''US'' \<and> Market_Segment x = ''B''
            then region_segment_volume three_sales ''US'' ''B'' else 0) = 300"
    by code_simp+
  from segment_share_filled [OF a b, of stable_sort_desc] obtain res where
    r: "analyze_regional_performance stable_sort_desc (Some three_sales) = Inr res" and
    cells: "\<forall>r \<in> regions_of three_sales. \<forall>s \<in> segments_of three_sales.
                cell_at (segment_share res) r s =
                  Some (Fin (if \<exists>x \<in> set (rows three_sales). Region x = r \<and> Market_Segment x = s
                             then region_segment_volume three_sales r s else 0))"
    by blast
  have "cell_at (segment_share res) ''EU'' ''A'' = Some (Fin 100)"
       "cell_at (segment_share res) ''EU'' ''B'' = Some (Fin 0)"
       "cell_at (segment_share res) ''US'' ''A'' = Some (Fin 0)"
       "cell_at (segment_share res) ''US'' ''B'' = Some (Fin 300)"
    using cells [unfolded c d] v by (simp_all only: ball_simps insert_iff simp_thms)
  with a b c d r show ?thesis by blast
qed

section \<open>Year-over-year growth\<close>

lemma pct_growth_Fin:
  "p \<noteq> 0 \<Longrightarrow> pct_growth (Fin l) (Fin p) = Fin ((l - p) / p * 100)"
  by (simp add: pct_growth_def fsub_def)

lemma pct_growth_NaN: "pct_growth NaN p = NaN" "pct_growth l NaN = NaN"
  by (cases l; simp add: pct_growth_def fsub_def)+















section \<open>Top models by region\<close>

lemma groupby_head_filter:
  "filter (\<lambda>t. key t = k) (groupby_head n key seen xs)
     = take (n - count_list seen k) (filter (\<lambda>t. key t = k) xs)"
proof (induction xs arbitrary: seen)
  case Nil
  then show ?case by simp
next
  case (Cons x xs)
  show ?case
  proof (cases "count_list seen (key x) < n")
    case True
    then show ?thesis
      using Cons.IH [of "key x # seen"]
      by (cases "key x = k") (auto simp: take_Cons' Suc_diff_Suc)
  next
    case False
    then show ?thesis using Cons.IH [of seen] by (cases "key x = k") auto
  qed
qed

lemma groupby_head_subset: "set (groupby_head n key seen xs) \<subseteq> set xs"
  by (induction xs arbitrary: seen) auto

lemma groupby_head_sorted_wrt:
  "sorted_wrt P xs \<Longrightarrow> sorted_wrt P (groupby_head n key seen xs)"
proof (induction xs arbitrary: seen)
  case Nil
  then show ?case by simp
next
  case (Cons x xs)
  then show ?case using groupby_head_subset [of n key _ xs] by (auto simp: subset_iff)
qed

lemma groupby_head_distinct: "distinct xs \<Longrightarrow> distinct (groupby_head n key seen xs)"
proof (induction xs arbitrary: seen)
  case Nil
  then show ?case by simp
next
  case (Cons x xs)
  then show ?case using groupby_head_subset [of n key _ xs] by (auto simp: subset_iff)
qed

lemma groupby_head_dominates:
  assumes "sorted_wrt P xs" "a \<in> set (groupby_head n key [] xs)" "b \<in> set xs"
    "b \<notin> set (groupby_head n key [] xs)" "key a = key b"
  shows "P a b"
proof -
  let ?f = "filter (\<lambda>t. key t = key b) xs"
  have h: "filter (\<lambda>t. key t = key b) (groupby_head n key [] xs) = take n ?f"
    by (simp add: groupby_head_filter)
  have "a \<in> set (filter (\<lambda>t. key t = key b) (groupby_head n key [] xs))"
    using assms(2,5) by simp
  then have a: "a \<in> set (take n ?f)" by (simp only: h)
  have "b \<notin> set (filter (\<lambda>t. key t = key b) (groupby_head n key [] xs))"
    using assms(4) by simp
  then have "b \<notin> set (take n ?f)" unfolding h .
  moreover have "b \<in> set ?f" using assms(3) by simp
  moreover have "set (take n ?f) \<union> set (drop n ?f) = set ?f"
    by (metis append_take_drop_id set_append)
  ultimately have b: "b \<in> set (drop n ?f)" by blast
  have "sorted_wrt P ?f" using assms(1) by (rule sorted_wrt_filter)
  then have "sorted_wrt P (take n ?f @ drop n ?f)" by simp
  with a b show ?thesis unfolding sorted_wrt_append by blast
qed

lemma reverse_ties_sort_ok: "sort_values_desc reverse_ties_sort"
proof -
  have "sorted_wrt (\<lambda>a b. tm_Sales_Volume b \<le> tm_Sales_Volume a) (rev (sort_key tm_Sales_Volume xs))"
    for xs :: "top_row list"
  proof -
    have "sorted (map tm_Sales_Volume (sort_key tm_Sales_Volume xs))" by (rule sorted_sort_key)
    then have "sorted_wrt (\<lambda>a b. tm_Sales_Volume a \<le> tm_Sales_Volume b) (sort_key tm_Sales_Volume xs)"
      by (simp add: sorted_map)
    then show ?thesis by (simp add: sorted_wrt_rev)
  qed
  then show ?thesis by (simp add: sort_values_desc_def reverse_ties_sort_def)
qed

lemma stable_sort_desc_ok: "sort_values_desc stable_sort_desc"
proof -
  have "sorted_wrt (\<lambda>a b. tm_Sales_Volume b \<le> tm_Sales_Volume a) (sort_key (\<lambda>r. - tm_Sales_Volume r) xs)"
    for xs :: "top_row list"
  proof -
    have "sorted (map (\<lambda>r. - tm_Sales_Volume r) (sort_key (\<lambda>r. - tm_Sales_Volume r) xs))"
      by (rule sorted_sort_key)
    then show ?thesis by (simp add: sorted_map)
  qed
  then show ?thesis by (simp add: sort_values_desc_def stable_sort_desc_def)
qed


lemma reset_index_proj:
  "map (\<lambda>t. ((tm_Region t, tm_Model t), tm_Sales_Volume t)) (reset_index s) = s"
proof -
  have "map (\<lambda>t. ((tm_Region t, tm_Model t), tm_Sales_Volume t)) (reset_index s)
      = map snd (enumerate 0 s)"
    by (simp add: reset_index_def case_prod_unfold del: map_snd_enumerate)
  then show ?thesis by (simp only: map_snd_enumerate)
qed

lemma grouped_models_proj:
  "map (\<lambda>t. (tm_Region t, tm_Model t)) (grouped_models df)
     = sort (remdups (map (\<lambda>r. (Region r, Model r)) (rows df)))"
proof -
  have "map (\<lambda>t. (tm_Region t, tm_Model t)) (grouped_models df)
      = map fst (map (\<lambda>t. ((tm_Region t, tm_Model t), tm_Sales_Volume t)) (grouped_models df))"
    by (simp add: o_def)
  then show ?thesis
    by (simp only: grouped_models_def reset_index_proj groupby_sum_keys)
qed

lemma grouped_models_distinct: "distinct (grouped_models df)"
proof -
  have "distinct (map (\<lambda>t. (tm_Region t, tm_Model t)) (grouped_models df))"
    by (simp add: grouped_models_proj)
  then show ?thesis by (simp add: distinct_map)
qed

lemma grouped_models_row:
  assumes "t \<in> set (grouped_models df)"
  shows "(\<exists>x \<in> set (rows df). Region x = tm_Region t \<and> Model x = tm_Model t)
         \<and> tm_Sales_Volume t = region_model_volume df (tm_Region t) (tm_Model t)"
proof -
  let ?s = "groupby_sum (\<lambda>r. (Region r, Model r)) Sales_Volume (rows df)"
  from assms have "((tm_Region t, tm_Model t), tm_Sales_Volume t)
      \<in> set (map (\<lambda>t. ((tm_Region t, tm_Model t), tm_Sales_Volume t)) (grouped_models df))"
    by (simp add: rev_image_eqI)
  then have "((tm_Region t, tm_Model t), tm_Sales_Volume t) \<in> set ?s"
    by (simp only: grouped_models_def reset_index_proj)
  then show ?thesis
    by (auto simp: groupby_sum_def region_model_volume_def)
qed

lemma grouped_models_complete:
  assumes "x \<in> set (rows df)"
  shows "\<exists>t \<in> set (grouped_models df). tm_Region t = Region x \<and> tm_Model t = Model x"
proof -
  have "(Region x, Model x) \<in> set (sort (remdups (map (\<lambda>r. (Region r, Model r)) (rows df))))"
    using assms by auto
  then have "(Region x, Model x) \<in> set (map (\<lambda>t. (tm_Region t, tm_Model t)) (grouped_models df))"
    by (simp only: grouped_models_proj)
  then show ?thesis by auto
qed

lemma grouped_models_count:
  "length (filter (\<lambda>t. tm_Region t = r) (grouped_models df)) = card (models_of df r)"
proof -
  let ?ks = "sort (remdups (map (\<lambda>r. (Region r, Model r)) (rows df)))"
  have "length (filter (\<lambda>t. tm_Region t = r) (grouped_models df))
      = length (filter (\<lambda>k. fst k = r) (map (\<lambda>t. (tm_Region t, tm_Model t)) (grouped_models df)))"
    by (simp add: filter_map o_def)
  also have "\<dots> = length (filter (\<lambda>k. fst k = r) ?ks)"
    by (simp only: grouped_models_proj)
  also have "\<dots> = card (set (filter (\<lambda>k. fst k = r) ?ks))"
    by (rule distinct_card [symmetric]) simp
  also have "set (filter (\<lambda>k. fst k = r) ?ks) = (\<lambda>m. (r, m)) ` models_of df r"
    by (auto simp: models_of_def image_iff)
  also have "card ((\<lambda>m. (r, m)) ` models_of df r) = card (models_of df r)"
    by (rule card_image) (simp add: inj_on_def)
  finally show ?thesis .
qed


lemma groupby_head_distinct_map:
  "distinct (map f xs) \<Longrightarrow> distinct (map f (groupby_head n key seen xs))"
proof (induction xs arbitrary: seen)
  case Nil
  then show ?case by simp
next
  case (Cons x xs)
  then show ?case using groupby_head_subset [of n key _ xs] by (auto simp: subset_iff)
qed

lemma top_models_result:
  assumes "\<not> empty df" "missing_columns df (op_required Regional_Performance) = []"
  shows "\<exists>res. analyze_regional_performance srt (Some df) = Inr res
           \<and> top_models res = groupby_head 3 tm_Region [] (srt (grouped_models df))"
proof -
  have e: "ensure_columns df [''Region'', ''Year'', ''Sales_Volume'', ''Model'', ''Market_Segment''] = Inr ()"
    using assms(2) ensure_columns_ok [of df "op_required Regional_Performance"] by simp
  show ?thesis
    using assms(1) e
    by (simp add: analyze_regional_performance_def regional_sales_block_def grouped_models_def)
qed

text \<open>
  Claim C5, as the code has it. On a non-empty table with the required columns, and
  for every sort that orders by descending volume, the \<open>top_models\<close> result holds
  each \<open>(Region, Model)\<close> pair at most once, with the summed \<open>Sales_Volume\<close> of the
  pair; a region has as many rows as it has models, but at most 3; the rows are in
  descending volume order, so also within each region's group; and every model of a
  region that is left out has a summed volume no larger than that of each row of the
  region that is kept. Nothing is said of the order among equal volumes.
\<close>

theorem top_models_per_region:
  assumes "\<not> empty df" and "missing_columns df (op_required Regional_Performance) = []"
    and "sort_values_desc srt"
  shows "\<exists>res. analyze_regional_performance srt (Some df) = Inr res
          \<and> distinct (map (\<lambda>t. (tm_Region t, tm_Model t)) (top_models res))
          \<and> (\<forall>t \<in> set (top_models res).
                (\<exists>x \<in> set (rows df). Region x = tm_Region t \<and> Model x = tm_Model t)
                \<and> tm_Sales_Volume t = region_model_volume df (tm_Region t) (tm_Model t))
          \<and> (\<forall>r. length (filter (\<lambda>t. tm_Region t = r) (top_models res))
                     = min 3 (card (models_of df r)))
          \<and> sorted_wrt (\<lambda>a b. tm_Sales_Volume b \<le> tm_Sales_Volume a) (top_models res)
          \<and> (\<forall>x \<in> set (rows df).
                (\<forall>t \<in> set (top_models res). \<not> (tm_Region t = Region x \<and> tm_Model t = Model x)) \<longrightarrow>
                (\<forall>t \<in> set (top_models res). tm_Region t = Region x \<longrightarrow>
                   region_model_volume df (Region x) (Model x) \<le> tm_Sales_Volume t))"
proof -
  let ?g = "grouped_models df"
  let ?xs = "srt ?g"
  let ?P = "\<lambda>a b. tm_Sales_Volume b \<le> tm_Sales_Volume a"
  from top_models_result [OF assms(1,2)] obtain res where
    res: "analyze_regional_performance srt (Some df) = Inr res" and
    tm: "top_models res = groupby_head 3 tm_Region [] ?xs"
    by blast
  from assms(3) have ms: "mset ?xs = mset ?g" and so: "sorted_wrt ?P ?xs"
    by (simp_all add: sort_values_desc_def)
  from ms have st: "set ?xs = set ?g" by (rule mset_eq_setD)
  have sub: "set (top_models res) \<subseteq> set ?g"
    using groupby_head_subset [of 3 tm_Region "[]" ?xs] by (simp add: tm st)
  have 1: "distinct (map (\<lambda>t. (tm_Region t, tm_Model t)) (top_models res))"
  proof -
    have "mset (map (\<lambda>t. (tm_Region t, tm_Model t)) ?xs) = mset (map (\<lambda>t. (tm_Region t, tm_Model t)) ?g)"
      using ms by simp
    moreover have "distinct (map (\<lambda>t. (tm_Region t, tm_Model t)) ?g)"
      by (simp add: grouped_models_proj)
    ultimately have "distinct (map (\<lambda>t. (tm_Region t, tm_Model t)) ?xs)"
      by (metis mset_eq_imp_distinct_iff)
    then show ?thesis unfolding tm by (rule groupby_head_distinct_map)
  qed
  have 2: "\<forall>t \<in> set (top_models res).
                (\<exists>x \<in> set (rows df). Region x = tm_Region t \<and> Model x = tm_Model t)
                \<and> tm_Sales_Volume t = region_model_volume df (tm_Region t) (tm_Model t)"
    using sub grouped_models_row [of _ df] by blast
  have 3: "\<forall>r. length (filter (\<lambda>t. tm_Region t = r) (top_models res))
                     = min 3 (card (models_of df r))"
  proof
    fix r
    have "mset (filter (\<lambda>t. tm_Region t = r) ?xs) = mset (filter (\<lambda>t. tm_Region t = r) ?g)"
      using ms by simp
    then have "length (filter (\<lambda>t. tm_Region t = r) ?xs) = length (filter (\<lambda>t. tm_Region t = r) ?g)"
      by (rule mset_eq_length)
    then show "length (filter (\<lambda>t. tm_Region t = r) (top_models res)) = min 3 (card (models_of df r))"
      by (simp add: tm groupby_head_filter grouped_models_count min.commute)
  qed
  have 4: "sorted_wrt ?P (top_models res)"
    unfolding tm using so by (rule groupby_head_sorted_wrt)
  have 5: "\<forall>x \<in> set (rows df).
                (\<forall>t \<in> set (top_models res). \<not> (tm_Region t = Region x \<and> tm_Model t = Model x)) \<longrightarrow>
                (\<forall>t \<in> set (top_models res). tm_Region t = Region x \<longrightarrow>
                   region_model_volume df (Region x) (Model x) \<le> tm_Sales_Volume t)"
  proof (intro ballI impI)
    fix x t
    assume x: "x \<in> set (rows df)"
      and out: "\<forall>t \<in> set (top_models res). \<not> (tm_Region t = Region x \<and> tm_Model t = Model x)"
      and t: "t \<in> set (top_models res)" and r: "tm_Region t = Region x"
    from grouped_models_complete [OF x] obtain b where
      b: "b \<in> set ?g" "tm_Region b = Region x" "tm_Model b = Model x"
      by blast
    from b out have nb: "b \<notin> set (groupby_head 3 tm_Region [] ?xs)" by (auto simp: tm)
    from b(1) st have bx: "b \<in> set ?xs" by simp
    from t have tx: "t \<in> set (groupby_head 3 tm_Region [] ?xs)" by (simp add: tm)
    from r b(2) have k: "tm_Region t = tm_Region b" by simp
    from groupby_head_dominates [OF so tx bx nb k]
    have "tm_Sales_Volume b \<le> tm_Sales_Volume t" .
    moreover from grouped_models_row [OF b(1)] b(2,3)
    have "tm_Sales_Volume b = region_model_volume df (Region x) (Model x)" by simp
    ultimately show "region_model_volume df (Region x) (Model x) \<le> tm_Sales_Volume t" by simp
  qed
  from res 1 2 3 4 5 show ?thesis by blast
qed


theorem top_models_per_region_witness:
  "\<not> empty four_models \<and> missing_columns four_models (op_required Regional_Performance) = []
   \<and> sort_values_desc stable_sort_desc
   \<and> sale 0 ''M1'' 2020 ''EU'' ''A'' 10 100 (StrL ''C1'') (Some ''Sedan'') False \<in> set (rows four_models)
   \<and> (\<exists>res. analyze_regional_performance stable_sort_desc (Some four_models) = Inr res
         \<and> map (\<lambda>t. (tm_Region t, tm_Model t, tm_Sales_Volume t)) (top_models res)
             = [(''EU'', ''M2'', 40), (''EU'', ''M3'', 30), (''EU'', ''M4'', 20)]
         \<and> length (filter (\<lambda>t. tm_Region t = ''EU'') (top_models res)) = 3
         \<and> (\<forall>t \<in> set (top_models res). \<not> (tm_Region t = ''EU'' \<and> tm_Model t = ''M1''))
         \<and> (\<forall>t \<in> set (top_models res). tm_Region t = ''EU'' \<longrightarrow> 10 \<le> tm_Sales_Volume t))"
proof -
  let ?x = "sale 0 ''M1'' 2020 ''EU'' ''A'' 10 100 (StrL ''C1'') (Some ''Sedan'') False"
  have a: "\<not> empty four_models" by code_simp
  have b: "missing_columns four_models (op_required Regional_Performance) = []" by code_simp
  have c: "sort_values_desc stable_sort_desc" by (rule stable_sort_desc_ok)
  have x: "?x \<in> set (rows four_models)" by code_simp
  have xr: "Region ?x = ''EU''" and xm: "Model ?x = ''M1''" by (simp_all add: sale_def)
  have v: "region_model_volume four_models ''EU'' ''M1'' = 10" by code_simp
  have tm: "top_models_by stable_sort_desc four_models =
      Some [\<lparr>tm_idx = 1, tm_Region = ''EU'', tm_Model = ''M2'', tm_Sales_Volume = 40\<rparr>,
            \<lparr>tm_idx = 2, tm_Region = ''EU'', tm_Model = ''M3'', tm_Sales_Volume = 30\<rparr>,
            \<lparr>tm_idx = 3, tm_Region = ''EU'', tm_Model = ''M4'', tm_Sales_Volume = 20\<rparr>]"
    by code_simp
  from top_models_per_region [OF a b c] obtain res where
    res: "analyze_regional_performance stable_sort_desc (Some four_models) = Inr res" and
    dom: "\<forall>x \<in> set (rows four_models).
                (\<forall>t \<in> set (top_models res). \<not> (tm_Region t = Region x \<and> tm_Model t = Model x)) \<longrightarrow>
                (\<forall>t \<in> set (top_models res). tm_Region t = Region x \<longrightarrow>
                   region_model_volume four_models (Region x) (Model x) \<le> tm_Sales_Volume t)"
    by blast
  from tm res have t: "top_models res =
           [\<lparr>tm_idx = 1, tm_Region = ''EU'', tm_Model = ''M2'', tm_Sales_Volume = 40\<rparr>,
            \<lparr>tm_idx = 2, tm_Region = ''EU'', tm_Model = ''M3'', tm_Sales_Volume = 30\<rparr>,
            \<lparr>tm_idx = 3, tm_Region = ''EU'', tm_Model = ''M4'', tm_Sales_Volume = 20\<rparr>]"
    by (simp add: top_models_by_def)
  have 1: "map (\<lambda>t. (tm_Region t, tm_Model t, tm_Sales_Volume t)) (top_models res)
             = [(''EU'', ''M2'', 40), (''EU'', ''M3'', 30), (''EU'', ''M4'', 20)]"
    by (simp add: t)
  have 2: "length (filter (\<lambda>t. tm_Region t = ''EU'') (top_models res)) = 3" by (simp add: t)
  have 3: "\<forall>t \<in> set (top_models res). \<not> (tm_Region t = ''EU'' \<and> tm_Model t = ''M1'')"
    by (simp add: t)
  from bspec [OF dom x] 3 have 4: "\<forall>t \<in> set (top_models res). tm_Region t = ''EU'' \<longrightarrow> 10 \<le> tm_Sales_Volume t"
    unfolding xr xm v by blast
  from res 1 2 3 4 have "\<exists>res. analyze_regional_performance stable_sort_desc (Some four_models) = Inr res
         \<and> map (\<lambda>t. (tm_Region t, tm_Model t, tm_Sales_Volume t)) (top_models res)
             = [(''EU'', ''M2'', 40), (''EU'', ''M3'', 30), (''EU'', ''M4'', 20)]
         \<and> length (filter (\<lambda>t. tm_Region t = ''EU'') (top_models res)) = 3
         \<and> (\<forall>t \<in> set (top_models res). \<not> (tm_Region t = ''EU'' \<and> tm_Model t = ''M1''))
         \<and> (\<forall>t \<in> set (top_models res). tm_Region t = ''EU'' \<longrightarrow> 10 \<le> tm_Sales_Volume t)"
    by (intro exI [of _ res] conjI)
  with a b c x show ?thesis by (intro conjI)
qed

text \<open>
  Claim C5 as it is stated fails in its tie-breaking: the sort is pandas' default
  quicksort, which need not be stable. In a region with the models M1 and M2 of
  volume 10 and M3 and M4 of volume 20, a sort by descending volume that leaves equal
  volumes in the reverse of their original order keeps M4, M3, M2 in this order, while
  the stable sort keeps M3, M4, M1: neither the order of the tied rows nor the choice
  of the third model is fixed by the original ordering.
\<close>

theorem top_models_ties_counterexample:
  "\<not> empty tie_pairs \<and> missing_columns tie_pairs (op_required Regional_Performance) = []
   \<and> map (\<lambda>t. (tm_Model t, tm_Sales_Volume t)) (grouped_models tie_pairs)
       = [(''M1'', 10), (''M2'', 10), (''M3'', 20), (''M4'', 20)]
   \<and> sort_values_desc reverse_ties_sort
   \<and> top_models_by reverse_ties_sort tie_pairs =
       Some [\<lparr>tm_idx = 3, tm_Region = ''EU'', tm_Model = ''M4'', tm_Sales_Volume = 20\<rparr>,
             \<lparr>tm_idx = 2, tm_Region = ''EU'', tm_Model = ''M3'', tm_Sales_Volume = 20\<rparr>,
             \<lparr>tm_idx = 1, tm_Region = ''EU'', tm_Model = ''M2'', tm_Sales_Volume = 10\<rparr>]
   \<and> top_models_by stable_sort_desc tie_pairs =
       Some [\<lparr>tm_idx = 2, tm_Region = ''EU'', tm_Model = ''M3'', tm_Sales_Volume = 20\<rparr>,
             \<lparr>tm_idx = 3, tm_Region = ''EU'', tm_Model = ''M4'', tm_Sales_Volume = 20\<rparr>,
             \<lparr>tm_idx = 0, tm_Region = ''EU'', tm_Model = ''M1'', tm_Sales_Volume = 10\<rparr>]"
proof -
  have e: "\<not> empty tie_pairs" by code_simp
  have m: "missing_columns tie_pairs (op_required Regional_Performance) = []" by code_simp
  have g: "map (\<lambda>t. (tm_Model t, tm_Sales_Volume t)) (grouped_models tie_pairs)
       = [(''M1'', 10), (''M2'', 10), (''M3'', 20), (''M4'', 20)]" by code_simp
  have a: "sort_values_desc reverse_ties_sort" by (rule reverse_ties_sort_ok)
  have b: "top_models_by reverse_ties_sort tie_pairs =
       Some [\<lparr>tm_idx = 3, tm_Region = ''EU'', tm_Model = ''M4'', tm_Sales_Volume = 20\<rparr>,
             \<lparr>tm_idx = 2, tm_Region = ''EU'', tm_Model = ''M3'', tm_Sales_Volume = 20\<rparr>,
             \<lparr>tm_idx = 1, tm_Region = ''EU'', tm_Model = ''M2'', tm_Sales_Volume = 10\<rparr>]"
    by code_simp
  have c: "top_models_by stable_sort_desc tie_pairs =
       Some [\<lparr>tm_idx = 2, tm_Region = ''EU'', tm_Model = ''M3'', tm_Sales_Volume = 20\<rparr>,
             \<lparr>tm_idx = 3, tm_Region = ''EU'', tm_Model = ''M4'', tm_Sales_Volume = 20\<rparr>,
             \<lparr>tm_idx = 0, tm_Region = ''EU'', tm_Model = ''M1'', tm_Sales_Volume = 10\<rparr>]"
    by code_simp
  from e m g a b c show ?thesis by (intro conjI)
qed

section \<open>Customer segmentation: the frame\<close>

lemma setitem_column_get:
  assumes "length cells = length (rows df)"
  shows "get_column c (setitem_column name cells df)
           = (if c = name then map Some cells else get_column c df)"
proof -
  have "map (\<lambda>r. map_of (other r) c)
          (map (\<lambda>(r, v). r\<lparr> other := AList.update name v (other r) \<rparr>) (zip rs cells))
        = (if c = name then map Some cells else map (\<lambda>r. map_of (other r) c) rs)"
    if "length cells = length rs" for rs :: "row list"
    using that
  proof (induction rs cells rule: list_induct2')
    case (4 r rs v vs)
    then show ?case by (simp add: update_conv')
  qed simp_all
  from this [OF assms] show ?thesis by (simp add: get_column_def setitem_column_def)
qed



lemma bins_to_cuts_length: "bins_to_cuts x bins b = Inr ids \<Longrightarrow> length ids = length x"
  by (auto simp: bins_to_cuts_def split: if_splits)

lemma qcut_length: "qcut x q = Inr ids \<Longrightarrow> length ids = length x"
  by (auto simp: qcut_def dest: bins_to_cuts_length split: if_splits)

lemma cut_length: "cut x n = Inr ids \<Longrightarrow> length ids = length x"
  by (auto simp: cut_def Let_def dest: bins_to_cuts_length split: if_splits)

lemma length_rank_first: "length (rank_first xs) = length xs"
  by (simp add: rank_first_def)

lemma price_category_length: "price_category x = Inr cs \<Longrightarrow> length cs = length x"
  by (auto simp: price_category_def label_cells_def length_rank_first
           dest: qcut_length cut_length split: sum.splits)

lemma length_primary_type: "length (primary_type rs target) = length target"
  by (simp add: primary_type_def)

lemma length_purchase_frequency: "length (purchase_frequency rs target) = length target"
  by (auto simp: purchase_frequency_def Let_def label_cells_def length_rank_first
           dest: qcut_length split: sum.splits)

lemma segment_customer_base_result:
  assumes "\<not> empty df" "missing_columns df (op_required Customer_Base) = []"
  shows "\<exists>pc s1 s2. price_category (map Price_USD (rows df)) = Inr pc
           \<and> length pc = length (rows df)
           \<and> s1 = setitem_column ''Price_Category'' pc df
           \<and> s2 = setitem_column ''Primary_Type'' (primary_type (rows df) (rows s1)) s1
           \<and> segment_customer_base (Some df)
               = Inr (df, setitem_column ''Purchase_Frequency''
                            (purchase_frequency (rows df) (rows s2)) s2)"
proof -
  have e: "ensure_columns df [''Price_USD'', ''Customer_ID'', ''Vehicle_Type''] = Inr ()"
    using assms(2) ensure_columns_ok [of df "op_required Customer_Base"] by simp
  from assms(1) have "map Price_USD (rows df) \<noteq> []" by (simp add: empty_def)
  from price_category_returns [OF this] obtain pc where
    pc: "price_category (map Price_USD (rows df)) = Inr pc" by blast
  from price_category_length [OF pc] have l: "length pc = length (rows df)" by simp
  show ?thesis
    using assms(1) e pc l by (simp add: segment_customer_base_def Let_def)
qed










section \<open>Customer segmentation: the primary vehicle type\<close>

text \<open>
  Claim C4 does not hold of the code. The per-customer mode is a Series indexed by
  \<^verbatim>\<open>Customer_ID\<close> and is assigned to the column without being mapped back to the
  rows, so each row gets the mode of the customer whose identifier equals the row's
  index label. The customer C1 with the purchases Sedan, Sedan, SUV in rows 0, 1, 2
  gets an undefined \<open>Primary_Type\<close> on all three rows, although the mode is Sedan.
  With integer identifiers, row 0 of customer 1 (Sedan, Sedan) gets SUV, the mode of
  customer 0.
\<close>

theorem primary_type_misaligned:
  "map Customer_ID (rows three_sales) = [StrL ''C1'', StrL ''C1'', StrL ''C1'']
   \<and> map Vehicle_Type (rows three_sales) = [Some ''Sedan'', Some ''Sedan'', Some ''SUV'']
   \<and> mode_first (map Vehicle_Type (rows three_sales)) = Some ''Sedan''
   \<and> map_option (get_column ''Primary_Type'') (segmented three_sales)
       = Some [Some Null, Some Null, Some Null]
   \<and> map Customer_ID (rows swapped_ids) = [IntL 1, IntL 1, IntL 0]
   \<and> map idx (rows swapped_ids) = [IntL 0, IntL 1, IntL 2]
   \<and> map_option (get_column ''Primary_Type'') (segmented swapped_ids)
       = Some [Some (Str ''SUV''), Some (Str ''Sedan''), Some Null]"
  by code_simp

section \<open>Customer segmentation: the price category\<close>

lemma rank_first_nat: "rank_first xs = map (\<lambda>i. of_nat (rank_nat xs i)) [0..<length xs]"
  by (simp add: rank_first_def rank_nat_def)

lemma length_filter_disjoint:
  assumes "\<forall>v \<in> set xs. (P v \<longrightarrow> \<not> Q v) \<and> (P v \<longrightarrow> R v) \<and> (Q v \<longrightarrow> R v)"
  shows "length (filter P xs) + length (filter Q xs) \<le> length (filter R xs)"
  using assms by (induction xs) auto

lemma take_split:
  assumes "i < j" "j \<le> length xs"
  shows "take j xs = take i xs @ xs ! i # take (j - Suc i) (drop (Suc i) xs)"
proof -
  have "i < length (take j xs)" using assms by simp
  from id_take_nth_drop [OF this]
  have "take j xs = take i (take j xs) @ take j xs ! i # drop (Suc i) (take j xs)" .
  then show ?thesis using assms by (simp add: min_def drop_take)
qed

lemma equal_before_lt_count:
  assumes "i < length xs"
  shows "length (filter (\<lambda>v. v = xs ! i) (take i xs)) < length (filter (\<lambda>v. v = xs ! i) xs)"
proof -
  have "xs = take i xs @ xs ! i # drop (Suc i) xs" using assms by (rule id_take_nth_drop)
  then have "filter (\<lambda>v. v = xs ! i) xs
      = filter (\<lambda>v. v = xs ! i) (take i xs) @ xs ! i # filter (\<lambda>v. v = xs ! i) (drop (Suc i) xs)"
    by (metis (mono_tags, lifting) filter.simps(2) filter_append)
  then have "length (filter (\<lambda>v. v = xs ! i) xs)
      = length (filter (\<lambda>v. v = xs ! i) (take i xs)) + 1 + length (filter (\<lambda>v. v = xs ! i) (drop (Suc i) xs))"
    by (metis (no_types, lifting) One_nat_def add.assoc length_Cons length_append plus_1_eq_Suc)
  then show ?thesis by simp
qed

lemma rank_nat_bounds:
  assumes "i < length xs"
  shows "1 \<le> rank_nat xs i" "rank_nat xs i \<le> length xs"
proof -
  show "1 \<le> rank_nat xs i" by (simp add: rank_nat_def)
  have "length (filter (\<lambda>v. v < xs ! i) xs) + length (filter (\<lambda>v. v = xs ! i) xs)
        \<le> length (filter (\<lambda>v. True) xs)"
    by (rule length_filter_disjoint) auto
  with equal_before_lt_count [OF assms] show "rank_nat xs i \<le> length xs"
    by (simp add: rank_nat_def)
qed

lemma rank_nat_less:
  assumes "i < length xs" "j < length xs" "xs ! i < xs ! j"
  shows "rank_nat xs i < rank_nat xs j"
proof -
  have "length (filter (\<lambda>v. v < xs ! i) xs) + length (filter (\<lambda>v. v = xs ! i) xs)
        \<le> length (filter (\<lambda>v. v < xs ! j) xs)"
    using assms(3) by (intro length_filter_disjoint) auto
  with equal_before_lt_count [OF assms(1)] show ?thesis
    by (simp add: rank_nat_def)
qed

lemma rank_nat_tie:
  assumes "i < j" "j < length xs" "xs ! i = xs ! j"
  shows "rank_nat xs i < rank_nat xs j"
proof -
  have "take j xs = take i xs @ xs ! i # take (j - Suc i) (drop (Suc i) xs)"
    using assms(1,2) by (intro take_split) simp_all
  then have "filter (\<lambda>v. v = xs ! j) (take j xs)
      = filter (\<lambda>v. v = xs ! j) (take i xs) @ xs ! i
          # filter (\<lambda>v. v = xs ! j) (take (j - Suc i) (drop (Suc i) xs))"
    using assms(3) by simp
  then have "length (filter (\<lambda>v. v = xs ! i) (take i xs)) < length (filter (\<lambda>v. v = xs ! j) (take j xs))"
    using assms(3) by simp
  then show ?thesis using assms(3) by (simp add: rank_nat_def)
qed

lemma rank_nat_inj: "inj_on (rank_nat xs) {0..<length xs}"
proof (rule inj_onI)
  fix i j assume i: "i \<in> {0..<length xs}" and j: "j \<in> {0..<length xs}"
    and e: "rank_nat xs i = rank_nat xs j"
  show "i = j"
  proof (rule ccontr)
    assume ne: "i \<noteq> j"
    consider "xs ! i < xs ! j" | "xs ! j < xs ! i" | "xs ! i = xs ! j" "i < j" | "xs ! i = xs ! j" "j < i"
      using ne by (metis linorder_neqE_nat not_less_iff_gr_or_eq)
    then show False
    proof cases
      case 1
      with i j rank_nat_less [of i xs j] e show False by simp
    next
      case 2
      with i j rank_nat_less [of j xs i] e show False by simp
    next
      case 3
      with j rank_nat_tie [of i j xs] e show False by simp
    next
      case 4
      with i rank_nat_tie [of j i xs] e show False by simp
    qed
  qed
qed

lemma rank_nat_image: "rank_nat xs ` {0..<length xs} = {1..length xs}"
proof (rule card_subset_eq)
  show "finite {1..length xs}" by simp
  show "rank_nat xs ` {0..<length xs} \<subseteq> {1..length xs}"
    using rank_nat_bounds [of _ xs] by auto
  show "card (rank_nat xs ` {0..<length xs}) = card {1..length xs}"
    by (simp add: card_image rank_nat_inj)
qed

lemma sort_rank_first: "sort (rank_first xs) = map of_nat [1..<length xs + 1]"
proof (rule sorted_distinct_set_unique)
  let ?rs = "map (rank_nat xs) [0..<length xs]"
  have r: "rank_first xs = map of_nat ?rs" by (simp add: rank_first_nat)
  have d: "distinct ?rs" using rank_nat_inj [of xs] by (simp add: distinct_map)
  have s: "set ?rs = {1..length xs}" using rank_nat_image [of xs] by simp
  show "sorted (sort (rank_first xs))" by simp
  show "distinct (sort (rank_first xs))"
    using d by (simp add: r distinct_map inj_on_def)
  show "sorted (map (of_nat :: nat \<Rightarrow> rat) [1..<length xs + 1])"
  proof -
    have "sorted_wrt (\<lambda>a b. (of_nat a :: rat) \<le> of_nat b) [1..<length xs + 1]"
      using sorted_upt [of 1 "length xs + 1"] by (simp only: of_nat_le_iff)
    then show ?thesis by (simp only: sorted_map)
  qed
  show "distinct (map (of_nat :: nat \<Rightarrow> rat) [1..<length xs + 1])"
    by (simp only: distinct_map distinct_upt) (simp add: inj_on_def)
  show "set (sort (rank_first xs)) = set (map (of_nat :: nat \<Rightarrow> rat) [1..<length xs + 1])"
  proof -
    have "set (sort (rank_first xs)) = of_nat ` set ?rs" by (simp add: r image_image)
    also have "\<dots> = of_nat ` {1..length xs}" by (simp only: s)
    also have "{1..length xs} = set [1..<length xs + 1]" by auto
    finally show ?thesis by simp
  qed
qed


lemma quantile_ranks:
  assumes "0 < n" "0 \<le> q" "q \<le> 1"
  shows "quantile (map of_nat [1..<n + 1]) q = 1 + q * of_nat (n - 1)"
proof -
  define sx :: "rat list" where "sx = map of_nat [1..<n + 1]"
  define p where "p = q * of_nat (n - 1)"
  define lo where "lo = nat \<lfloor>p\<rfloor>"
  have len: "length sx = n" by (simp add: sx_def)
  have nth: "sx ! k = of_nat (k + 1)" if "k < n" for k
  proof -
    from that have l: "k < length [1..<n + 1]" by simp
    from that have "1 + k < n + 1" by simp
    then have "[1..<n + 1] ! k = 1 + k" by (rule nth_upt)
    with nth_map [OF l, of "of_nat :: nat \<Rightarrow> rat"] show ?thesis
      by (simp only: sx_def add.commute)
  qed
  have p0: "0 \<le> p" using assms(2) by (simp add: p_def)
  have p1: "p \<le> of_nat (n - 1)"
  proof -
    have "q * of_nat (n - 1) \<le> 1 * (of_nat (n - 1) :: rat)"
      using assms(3) by (intro mult_right_mono) simp_all
    then show ?thesis by (simp add: p_def)
  qed
  have lo_le: "of_nat lo \<le> p" using p0 by (simp add: lo_def)
  have q: "quantile sx q =
      (if lo + 1 < n then sx ! lo + (sx ! (lo + 1) - sx ! lo) * (p - of_nat lo) else sx ! lo)"
    unfolding quantile_def Let_def len lo_def p_def ..
  show ?thesis
  proof (cases "lo + 1 < n")
    case True
    then have "sx ! lo = of_nat (lo + 1)" "sx ! (lo + 1) = of_nat (lo + 2)"
      using nth [of lo] nth [of "lo + 1"] by simp_all
    with True q show ?thesis unfolding sx_def [symmetric] p_def [symmetric] by simp
  next
    case False
    from lo_le p1 have "(of_nat lo :: rat) \<le> of_nat (n - 1)" by (rule order_trans)
    then have "lo \<le> n - 1" by (simp only: of_nat_le_iff)
    with False assms(1) have lo: "lo = n - 1" by simp
    with lo_le p1 have pe: "p = of_nat (n - 1)" by simp
    have "sx ! lo = of_nat n" using nth [of lo] lo assms(1) by simp
    with False q pe assms(1) show ?thesis
      unfolding sx_def [symmetric] p_def [symmetric] by (simp add: of_nat_diff)
  qed
qed

lemma quantile_edges_ranks:
  assumes "xs \<noteq> []"
  shows "quantile_edges (rank_first xs) 5
           = map (\<lambda>k. 1 + of_nat k / 5 * of_nat (length xs - 1)) [0..<6]"
proof -
  have "quantile (map of_nat [1..<length xs + 1]) (0 + (1 - 0) * of_nat k / of_nat 5)
          = 1 + of_nat k / 5 * of_nat (length xs - 1)" if "k \<in> set [0..<6]" for k :: nat
  proof -
    from that have "k \<le> 5" by simp
    then have "(of_nat k :: rat) \<le> 5" by (metis of_nat_le_iff of_nat_numeral)
    then have "0 \<le> (0::rat) + (1 - 0) * of_nat k / of_nat 5" "(0::rat) + (1 - 0) * of_nat k / of_nat 5 \<le> 1"
      by simp_all
    with assms quantile_ranks [of "length xs" "0 + (1 - 0) * of_nat k / of_nat 5"]
    show ?thesis by simp
  qed
  then show ?thesis
    by (simp only: quantile_edges_def sort_rank_first linspace_def list.map_comp map_eq_conv o_def)
       simp
qed

lemma rank_edges_distinct:
  assumes "xs \<noteq> []"
  shows "distinct (quantile_edges (rank_first xs) 5) \<longleftrightarrow> 2 \<le> length xs"
proof (cases "2 \<le> length xs")
  case True
  then have nz: "(of_nat (length xs - 1) :: rat) \<noteq> 0" by simp
  have "inj (\<lambda>k :: nat. 1 + of_nat k / 5 * (of_nat (length xs - 1) :: rat))"
  proof (rule injI)
    fix a b :: nat
    assume "1 + of_nat a / 5 * (of_nat (length xs - 1) :: rat) = 1 + of_nat b / 5 * of_nat (length xs - 1)"
    then have "of_nat a / 5 * (of_nat (length xs - 1) :: rat) = of_nat b / 5 * of_nat (length xs - 1)"
      by simp
    with nz have "(of_nat a :: rat) / 5 = of_nat b / 5" by (simp only: mult_cancel_right) simp
    then show "a = b" by simp
  qed
  then have "inj_on (\<lambda>k :: nat. 1 + of_nat k / 5 * (of_nat (length xs - 1) :: rat)) (set [0..<6])"
    by (rule inj_on_subset) simp
  then have "distinct (map (\<lambda>k :: nat. 1 + of_nat k / 5 * (of_nat (length xs - 1) :: rat)) [0..<6])"
    by (simp only: distinct_map distinct_upt simp_thms)
  with True show ?thesis by (simp only: quantile_edges_ranks [OF assms])
next
  case False
  moreover from assms have "length xs \<noteq> 0" by simp
  ultimately have "length xs = 1" by arith
  then have "quantile_edges (rank_first xs) 5 = map (\<lambda>k. 1) [0..<6]"
    by (simp add: quantile_edges_ranks [OF assms])
  moreover have "\<not> distinct (map (\<lambda>k. 1::rat) [0..<6])"
    by (simp add: upt_rec)
  ultimately show ?thesis using False by simp
qed


lemma length_filter_less_upt: "length (filter (\<lambda>k. k < c) [0..<m]) = min m c"
  by (induction m) auto

lemma count_below:
  fixes y :: rat
  shows "length (filter (\<lambda>k. of_nat k < y) [0..<m]) = min m (nat \<lceil>y\<rceil>)"
proof -
  have "(of_nat k < y) = (k < nat \<lceil>y\<rceil>)" for k :: nat
  proof -
    have "(of_nat k < y) = (of_int (int k) < y)" by simp
    also have "\<dots> = (int k < \<lceil>y\<rceil>)" by (rule less_ceiling_iff [symmetric])
    also have "\<dots> = (k < nat \<lceil>y\<rceil>)" by (rule zless_nat_eq_int_zless [symmetric])
    finally show ?thesis .
  qed
  then show ?thesis by (simp only: length_filter_less_upt)
qed

lemma rank_bin:
  fixes n r :: nat
  defines "bins \<equiv> map (\<lambda>k. 1 + of_nat k / 5 * (of_nat (n - 1) :: rat)) [0..<6]"
  assumes "2 \<le> n" "1 \<le> r" "r \<le> n"
  shows "(let i = (if True \<and> (of_nat r :: rat) = hd bins then 1
                   else length (filter (\<lambda>e. e < (of_nat r :: rat)) bins))
          in if i = 0 \<or> i = length bins then None else Some (i - 1))
         = Some (equal_frequency_bin n (of_nat r))"
proof -
  let ?f = "\<lambda>k :: nat. 1 + of_nat k / 5 * (of_nat (n - 1) :: rat)"
  have h: "hd bins = 1" by (simp add: bins_def upt_rec)
  have len: "length bins = 6" by (simp add: bins_def)
  have pos: "(0::rat) < of_nat (n - 1)" using assms(2) by simp
  show ?thesis
  proof (cases "r = 1")
    case True
    then show ?thesis by (simp add: h len equal_frequency_bin_def)
  next
    case False
    with assms(3) have r1: "1 < r" by simp
    define y :: rat where "y = 5 * (of_nat r - 1) / of_nat (n - 1)"
    have lt: "(?f k < of_nat r) = (of_nat k < y)" for k :: nat
      using pos by (simp add: y_def field_simps)
    have y0: "0 < y" using r1 pos by (simp add: y_def)
    have "of_nat r - 1 \<le> (of_nat (n - 1) :: rat)"
      using assms(2,4) by (simp add: of_nat_diff)
    then have y5: "y \<le> 5" using pos by (simp add: y_def field_simps)
    from y0 have c1: "1 \<le> nat \<lceil>y\<rceil>" by (simp add: Suc_le_eq)
    from y5 have "y \<le> of_int 5" by simp
    then have "\<lceil>y\<rceil> \<le> 5" by (rule ceiling_le)
    then have c5: "nat \<lceil>y\<rceil> \<le> 5" by (simp add: nat_le_iff)
    have "length (filter (\<lambda>e. e < of_nat r) bins)
          = length (filter (\<lambda>k. of_nat k < y) [0..<6])"
      by (simp only: bins_def filter_map o_def length_map lt)
    also have "\<dots> = nat \<lceil>y\<rceil>" using c5 by (simp add: count_below)
    finally have cnt: "length (filter (\<lambda>e. e < of_nat r) bins) = nat \<lceil>y\<rceil>" .
    have ne: "(of_nat r :: rat) \<noteq> 1" using False by simp
    have e: "equal_frequency_bin n (of_nat r) = nat \<lceil>y\<rceil> - 1"
      using ne by (simp only: equal_frequency_bin_def y_def if_False)
    have i: "(if True \<and> (of_nat r :: rat) = hd bins then 1
              else length (filter (\<lambda>e. e < (of_nat r :: rat)) bins)) = nat \<lceil>y\<rceil>"
      using ne by (simp only: h cnt simp_thms if_False)
    have z: "\<not> (nat \<lceil>y\<rceil> = 0 \<or> nat \<lceil>y\<rceil> = length bins)"
      using c1 c5 unfolding len by linarith
    show ?thesis unfolding Let_def i e using z by (simp only: if_False)
  qed
qed

lemma qcut_ranks:
  assumes "2 \<le> length xs"
  shows "qcut (rank_first xs) 5
           = Inr (map (\<lambda>r. Some (equal_frequency_bin (length xs) r)) (rank_first xs))"
proof -
  from assms have ne: "xs \<noteq> []" by auto
  then have rne: "rank_first xs \<noteq> []" by (simp add: rank_first_def)
  have d: "distinct (quantile_edges (rank_first xs) 5)"
    using assms by (simp only: rank_edges_distinct [OF ne])
  have "qcut (rank_first xs) 5
      = Inr (map (\<lambda>v. let i = (if True \<and> v = hd (quantile_edges (rank_first xs) 5) then 1
                                   else length (filter (\<lambda>e. e < v) (quantile_edges (rank_first xs) 5)))
                          in if i = 0 \<or> i = length (quantile_edges (rank_first xs) 5) then None
                             else Some (i - 1)) (rank_first xs))"
    using rne d by (simp add: qcut_def bins_to_cuts_def)
  also have "\<dots> = Inr (map (\<lambda>r. Some (equal_frequency_bin (length xs) r)) (rank_first xs))"
  proof -
    have "(let i = (if True \<and> v = hd (quantile_edges (rank_first xs) 5) then 1
                                   else length (filter (\<lambda>e. e < v) (quantile_edges (rank_first xs) 5)))
                          in if i = 0 \<or> i = length (quantile_edges (rank_first xs) 5) then None
                             else Some (i - 1)) = Some (equal_frequency_bin (length xs) v)"
      if "v \<in> set (rank_first xs)" for v
    proof -
      from that obtain i where i: "i < length xs" and v: "v = of_nat (rank_nat xs i)"
        by (auto simp: rank_first_nat)
      from rank_bin [OF assms rank_nat_bounds [OF i]] show ?thesis
        unfolding v quantile_edges_ranks [OF ne] .
    qed
    then show ?thesis by simp
  qed
  finally show ?thesis .
qed

lemma cut_single: "cut [p] 5 = Inr [Some 2]"
proof -
  define d :: rat where "d = (if p \<noteq> 0 then 1 / 1000 * \<bar>p\<bar> else 1 / 1000)"
  have d: "0 < d" by (simp add: d_def)
  let ?f = "\<lambda>k :: nat. (p - d) + ((p + d) - (p - d)) * of_nat k / of_nat 5"
  have bins: "cut [p] 5 = bins_to_cuts [p] (linspace (p - d) (p + d) 5) False"
    by (simp add: cut_def d_def)
  have "p - d \<noteq> p + d" using d by simp
  then have dist: "distinct (linspace (p - d) (p + d) 5)" by (rule linspace_distinct) simp
  have lt: "(?f k < p) = (of_nat k < (5 / 2 :: rat))" for k :: nat
  proof -
    have "(?f k < p) = (2 * d * of_nat k / 5 < d)" by (simp add: field_simps)
    also have "\<dots> = (d * (2 * of_nat k / 5) < d * 1)" by (simp add: field_simps)
    also have "\<dots> = (2 * of_nat k / 5 < (1 :: rat))" using d by (simp only: mult_less_cancel_left_pos)
    also have "\<dots> = (of_nat k < (5 / 2 :: rat))" by (simp add: field_simps)
    finally show ?thesis .
  qed
  have "length (filter (\<lambda>e. e < p) (linspace (p - d) (p + d) 5))
        = length (filter (\<lambda>k. of_nat k < (5 / 2 :: rat)) [0..<5 + 1])"
    by (simp only: linspace_def filter_map o_def length_map lt)
  also have "\<dots> = min (5 + 1) (nat \<lceil>5 / 2 :: rat\<rceil>)" by (rule count_below)
  also have "\<dots> = 3"
  proof -
    have "\<lceil>5 / 2 :: rat\<rceil> = 3" by (rule ceiling_unique) simp_all
    then show ?thesis by simp
  qed
  finally have cnt: "length (filter (\<lambda>e. e < p) (linspace (p - d) (p + d) 5)) = 3" .
  show ?thesis
    using dist by (simp add: bins bins_to_cuts_def cnt length_linspace Let_def del: length_0_conv)
qed


lemma length_quantile_edges: "length (quantile_edges x q) = q + 1"
  by (simp add: quantile_edges_def length_linspace)

lemma qcut_fails_iff:
  assumes "x \<noteq> []"
  shows "(\<exists>e. qcut x 5 = Inl e) \<longleftrightarrow> \<not> distinct (quantile_edges x 5)"
  using assms by (simp add: qcut_def bins_to_cuts_def length_quantile_edges)

lemma equal_frequency_bin_mono:
  assumes "1 \<le> r" "r \<le> r'"
  shows "equal_frequency_bin n r \<le> equal_frequency_bin n r'"
proof (cases "r = 1")
  case True
  then show ?thesis by (simp add: equal_frequency_bin_def)
next
  case False
  with assms have r': "r' \<noteq> 1" by simp
  have "5 * (r - 1) / of_nat (n - 1) \<le> 5 * (r' - 1) / of_nat (n - 1)"
    using assms(2) by (intro divide_right_mono) simp_all
  then have "nat \<lceil>5 * (r - 1) / of_nat (n - 1)\<rceil> \<le> nat \<lceil>5 * (r' - 1) / of_nat (n - 1)\<rceil>"
    by (intro nat_mono ceiling_mono)
  with False r' show ?thesis by (simp add: equal_frequency_bin_def diff_le_mono)
qed

lemma rank_first_nth:
  "i < length xs \<Longrightarrow> rank_first xs ! i = of_nat (rank_nat xs i)"
  by (simp add: rank_first_nat)

lemma rank_first_order:
  assumes "i < length xs" "j < length xs" "xs ! i < xs ! j \<or> (xs ! i = xs ! j \<and> i < j)"
  shows "rank_first xs ! i < rank_first xs ! j"
proof -
  from assms have "rank_nat xs i < rank_nat xs j"
    using rank_nat_less [of i xs j] rank_nat_tie [of i j xs] by blast
  with assms(1,2) show ?thesis by (simp add: rank_first_nth)
qed

lemma segmentation_price_column:
  assumes "\<not> empty df" "missing_columns df (op_required Customer_Base) = []"
  shows "\<exists>seg pc. segment_customer_base (Some df) = Inr (df, seg)
           \<and> price_category (map Price_USD (rows df)) = Inr pc
           \<and> get_column ''Price_Category'' seg = map Some pc"
proof -
  from segment_customer_base_result [OF assms] obtain pc s1 s2 where
    p: "price_category (map Price_USD (rows df)) = Inr pc" and
    l: "length pc = length (rows df)" and
    s1: "s1 = setitem_column ''Price_Category'' pc df" and
    s2: "s2 = setitem_column ''Primary_Type'' (primary_type (rows df) (rows s1)) s1" and
    r: "segment_customer_base (Some df)
               = Inr (df, setitem_column ''Purchase_Frequency''
                            (purchase_frequency (rows df) (rows s2)) s2)"
    by blast
  define seg where "seg = setitem_column ''Purchase_Frequency'' (purchase_frequency (rows df) (rows s2)) s2"
  have g1: "get_column ''Price_Category'' s1 = map Some pc"
    unfolding s1 using l by (simp add: setitem_column_get)
  have g2: "get_column ''Price_Category'' s2 = get_column ''Price_Category'' s1"
    unfolding s2 by (simp add: setitem_column_get length_primary_type)
  have g3: "get_column ''Price_Category'' seg = get_column ''Price_Category'' s2"
    unfolding seg_def by (simp add: setitem_column_get length_purchase_frequency)
  from r p g1 g2 g3 show ?thesis unfolding seg_def [symmetric] by auto
qed

lemma price_category_ranks:
  assumes "2 \<le> length xs"
  shows "price_category xs
           = Inr (map (\<lambda>r. Str (price_labels ! equal_frequency_bin (length xs) r)) (rank_first xs))"
  by (simp add: price_category_def qcut_ranks [OF assms] label_cells_def o_def)

lemma price_category_single:
  "price_category [p] = Inr [Str ''Mid-Range'']"
proof -
  have "\<not> distinct (quantile_edges (rank_first [p]) 5)"
    using rank_edges_distinct [of "[p]"] by simp
  then obtain e where "qcut (rank_first [p]) 5 = Inl e"
    using qcut_fails_iff [of "rank_first [p]"] by (auto simp: rank_first_def)
  then show ?thesis
    by (simp add: price_category_def cut_single label_cells_def price_labels_def)
qed


text \<open>
  Claim C8. On a non-empty table with the required columns \<open>Price_Category\<close> is
  assigned in two attempts. First the prices are ranked, ties in row order (the ranks
  are a permutation of 1..n that follows the prices), and the ranks are cut at their
  quantile edges into five bins labelled Budget, Value, Mid-Range, Premium, Luxury in
  increasing price order; a row of rank r gets the bin \<open>\<lceil>5 (r - 1) / (n - 1)\<rceil> - 1\<close>
  (the first bin for r = 1). This attempt fails if and only if the quantile edges are
  not distinct, which is the case exactly for a table of one row; then, and only then,
  the column is cut into five equal-width bins over the observed prices with the same
  labels, which puts the single row into Mid-Range.
\<close>

theorem price_category_two_attempts:
  assumes "\<not> empty df" and "missing_columns df (op_required Customer_Base) = []"
  shows "\<exists>seg. segment_customer_base (Some df) = Inr (df, seg)
          \<and> ((\<exists>e. qcut (price_ranks df) 5 = Inl e)
                \<longleftrightarrow> \<not> distinct (quantile_edges (price_ranks df) 5))
          \<and> (distinct (quantile_edges (price_ranks df) 5) \<longleftrightarrow> 2 \<le> length (rows df))
          \<and> (distinct (quantile_edges (price_ranks df) 5) \<longrightarrow>
                (\<exists>ids. qcut (price_ranks df) 5 = Inr ids
                   \<and> get_column ''Price_Category'' seg = map Some (label_cells price_labels ids))
                \<and> get_column ''Price_Category'' seg
                    = map (\<lambda>r. Some (Str (price_labels ! equal_frequency_bin (length (rows df)) r)))
                        (price_ranks df))
          \<and> (\<not> distinct (quantile_edges (price_ranks df) 5) \<longrightarrow>
                (\<exists>ids. cut (map Price_USD (rows df)) 5 = Inr ids
                   \<and> get_column ''Price_Category'' seg = map Some (label_cells price_labels ids))
                \<and> get_column ''Price_Category'' seg = [Some (Str ''Mid-Range'')])
          \<and> sort (price_ranks df) = map of_nat [1..<length (rows df) + 1]
          \<and> (\<forall>i < length (rows df). \<forall>j < length (rows df).
                Price_USD (rows df ! i) < Price_USD (rows df ! j)
                \<or> (Price_USD (rows df ! i) = Price_USD (rows df ! j) \<and> i < j) \<longrightarrow>
                price_ranks df ! i < price_ranks df ! j
                \<and> equal_frequency_bin (length (rows df)) (price_ranks df ! i)
                    \<le> equal_frequency_bin (length (rows df)) (price_ranks df ! j))"
proof -
  let ?xs = "map Price_USD (rows df)"
  from assms(1) have ne: "?xs \<noteq> []" by (simp add: empty_def)
  then have rne: "price_ranks df \<noteq> []" by (simp add: price_ranks_def rank_first_def)
  from segmentation_price_column [OF assms] obtain seg pc where
    0: "segment_customer_base (Some df) = Inr (df, seg)" and
    pc: "price_category ?xs = Inr pc" and
    col: "get_column ''Price_Category'' seg = map Some pc"
    by blast
  have 1: "(\<exists>e. qcut (price_ranks df) 5 = Inl e)
                \<longleftrightarrow> \<not> distinct (quantile_edges (price_ranks df) 5)"
    using rne by (rule qcut_fails_iff)
  have 2: "distinct (quantile_edges (price_ranks df) 5) \<longleftrightarrow> 2 \<le> length (rows df)"
    using rank_edges_distinct [OF ne] by (simp add: price_ranks_def)
  have 3: "distinct (quantile_edges (price_ranks df) 5) \<longrightarrow>
                (\<exists>ids. qcut (price_ranks df) 5 = Inr ids
                   \<and> get_column ''Price_Category'' seg = map Some (label_cells price_labels ids))
                \<and> get_column ''Price_Category'' seg
                    = map (\<lambda>r. Some (Str (price_labels ! equal_frequency_bin (length (rows df)) r)))
                        (price_ranks df)"
  proof
    assume "distinct (quantile_edges (price_ranks df) 5)"
    with 2 have two: "2 \<le> length ?xs" by simp
    from qcut_ranks [OF two]
    have q: "qcut (price_ranks df) 5
        = Inr (map (\<lambda>r. Some (equal_frequency_bin (length (rows df)) r)) (price_ranks df))"
      by (simp add: price_ranks_def)
    from price_category_ranks [OF two] pc
    have p: "pc = map (\<lambda>r. Str (price_labels ! equal_frequency_bin (length (rows df)) r)) (price_ranks df)"
      by (simp add: price_ranks_def)
    have "get_column ''Price_Category'' seg
        = map Some (label_cells price_labels
            (map (\<lambda>r. Some (equal_frequency_bin (length (rows df)) r)) (price_ranks df)))"
      by (simp add: col p label_cells_def o_def)
    with q have a: "\<exists>ids. qcut (price_ranks df) 5 = Inr ids
                   \<and> get_column ''Price_Category'' seg = map Some (label_cells price_labels ids)"
      by blast
    have b: "get_column ''Price_Category'' seg
                    = map (\<lambda>r. Some (Str (price_labels ! equal_frequency_bin (length (rows df)) r)))
                        (price_ranks df)"
      by (simp add: col p o_def)
    from a b show "(\<exists>ids. qcut (price_ranks df) 5 = Inr ids
                   \<and> get_column ''Price_Category'' seg = map Some (label_cells price_labels ids))
                \<and> get_column ''Price_Category'' seg
                    = map (\<lambda>r. Some (Str (price_labels ! equal_frequency_bin (length (rows df)) r)))
                        (price_ranks df)" ..
  qed
  have 4: "\<not> distinct (quantile_edges (price_ranks df) 5) \<longrightarrow>
                (\<exists>ids. cut (map Price_USD (rows df)) 5 = Inr ids
                   \<and> get_column ''Price_Category'' seg = map Some (label_cells price_labels ids))
                \<and> get_column ''Price_Category'' seg = [Some (Str ''Mid-Range'')]"
  proof
    assume "\<not> distinct (quantile_edges (price_ranks df) 5)"
    with 2 have "\<not> 2 \<le> length ?xs" by simp
    moreover from ne have "length ?xs \<noteq> 0" by simp
    ultimately have "length ?xs = 1" by arith
    then obtain p where xs: "?xs = [p]" by (cases ?xs) auto
    from pc have p: "pc = [Str ''Mid-Range'']" by (simp add: xs price_category_single)
    have c: "cut ?xs 5 = Inr [Some 2]" by (simp only: xs cut_single)
    have "get_column ''Price_Category'' seg = map Some (label_cells price_labels [Some 2])"
      by (simp add: col p label_cells_def price_labels_def)
    with c have a: "\<exists>ids. cut (map Price_USD (rows df)) 5 = Inr ids
                   \<and> get_column ''Price_Category'' seg = map Some (label_cells price_labels ids)"
      by blast
    have b: "get_column ''Price_Category'' seg = [Some (Str ''Mid-Range'')]" by (simp add: col p)
    from a b show "(\<exists>ids. cut (map Price_USD (rows df)) 5 = Inr ids
                   \<and> get_column ''Price_Category'' seg = map Some (label_cells price_labels ids))
                \<and> get_column ''Price_Category'' seg = [Some (Str ''Mid-Range'')]" ..
  qed
  have 5: "sort (price_ranks df) = map of_nat [1..<length (rows df) + 1]"
    using sort_rank_first [of ?xs] by (simp add: price_ranks_def)
  have 6: "\<forall>i < length (rows df). \<forall>j < length (rows df).
                Price_USD (rows df ! i) < Price_USD (rows df ! j)
                \<or> (Price_USD (rows df ! i) = Price_USD (rows df ! j) \<and> i < j) \<longrightarrow>
                price_ranks df ! i < price_ranks df ! j
                \<and> equal_frequency_bin (length (rows df)) (price_ranks df ! i)
                    \<le> equal_frequency_bin (length (rows df)) (price_ranks df ! j)"
  proof (intro allI impI)
    fix i j
    assume i: "i < length (rows df)" and j: "j < length (rows df)"
      and o: "Price_USD (rows df ! i) < Price_USD (rows df ! j)
                \<or> (Price_USD (rows df ! i) = Price_USD (rows df ! j) \<and> i < j)"
    from i j o have lt: "price_ranks df ! i < price_ranks df ! j"
      unfolding price_ranks_def by (intro rank_first_order) simp_all
    have "1 \<le> rank_nat ?xs i" using rank_nat_bounds(1) [of i ?xs] i by simp
    then have "(1::rat) \<le> of_nat (rank_nat ?xs i)" by (metis of_nat_1 of_nat_le_iff)
    then have one: "1 \<le> price_ranks df ! i"
      using i by (simp add: price_ranks_def rank_first_nth)
    from one lt have "equal_frequency_bin (length (rows df)) (price_ranks df ! i)
                    \<le> equal_frequency_bin (length (rows df)) (price_ranks df ! j)"
      by (intro equal_frequency_bin_mono) simp_all
    with lt show "price_ranks df ! i < price_ranks df ! j
                \<and> equal_frequency_bin (length (rows df)) (price_ranks df ! i)
                    \<le> equal_frequency_bin (length (rows df)) (price_ranks df ! j)" ..
  qed
  from 0 1 2 3 4 5 6 show ?thesis by blast
qed


theorem price_category_two_attempts_witness:
  "(\<not> empty six_prices \<and> missing_columns six_prices (op_required Customer_Base) = []
    \<and> map Price_USD (rows six_prices) = [300, 100, 100, 200, 500, 400]
    \<and> price_ranks six_prices = [4, 1, 2, 3, 6, 5]
    \<and> distinct (quantile_edges (price_ranks six_prices) 5)
    \<and> price_ranks six_prices ! 1 < price_ranks six_prices ! 2
    \<and> (\<exists>seg. segment_customer_base (Some six_prices) = Inr (six_prices, seg)
          \<and> get_column ''Price_Category'' seg
              = [Some (Str ''Mid-Range''), Some (Str ''Budget''), Some (Str ''Budget''),
                 Some (Str ''Value''), Some (Str ''Luxury''), Some (Str ''Premium'')]))
   \<and> (\<not> empty one_sale \<and> missing_columns one_sale (op_required Customer_Base) = []
    \<and> \<not> distinct (quantile_edges (price_ranks one_sale) 5)
    \<and> (\<exists>e. qcut (price_ranks one_sale) 5 = Inl e)
    \<and> (\<exists>seg. segment_customer_base (Some one_sale) = Inr (one_sale, seg)
          \<and> get_column ''Price_Category'' seg = [Some (Str ''Mid-Range'')]))"
proof -
  have a: "\<not> empty six_prices" by code_simp
  have b: "missing_columns six_prices (op_required Customer_Base) = []" by code_simp
  have p: "map Price_USD (rows six_prices) = [300, 100, 100, 200, 500, 400]" by code_simp
  have r: "price_ranks six_prices = [4, 1, 2, 3, 6, 5]" by code_simp
  have n: "length (rows six_prices) = 6" by code_simp
  have i1: "(1::nat) < length (rows six_prices)" and i2: "(2::nat) < length (rows six_prices)"
    by (simp_all add: n)
  have tie: "Price_USD (rows six_prices ! 1) < Price_USD (rows six_prices ! 2)
      \<or> (Price_USD (rows six_prices ! 1) = Price_USD (rows six_prices ! 2) \<and> (1::nat) < 2)"
    by code_simp
  have lab: "map (\<lambda>r. Some (Str (price_labels ! equal_frequency_bin 6 r))) [4, 1, 2, 3, 6, 5]
      = [Some (Str ''Mid-Range''), Some (Str ''Budget''), Some (Str ''Budget''),
         Some (Str ''Value''), Some (Str ''Luxury''), Some (Str ''Premium'')]"
    by code_simp
  from price_category_two_attempts [OF a b] obtain seg where
    s0: "segment_customer_base (Some six_prices) = Inr (six_prices, seg)" and
    s2: "distinct (quantile_edges (price_ranks six_prices) 5) \<longleftrightarrow> 2 \<le> length (rows six_prices)" and
    s3: "distinct (quantile_edges (price_ranks six_prices) 5) \<longrightarrow>
           (\<exists>ids. qcut (price_ranks six_prices) 5 = Inr ids
              \<and> get_column ''Price_Category'' seg = map Some (label_cells price_labels ids))
           \<and> get_column ''Price_Category'' seg
               = map (\<lambda>r. Some (Str (price_labels ! equal_frequency_bin (length (rows six_prices)) r)))
                   (price_ranks six_prices)" and
    s6: "\<forall>i < length (rows six_prices). \<forall>j < length (rows six_prices).
           Price_USD (rows six_prices ! i) < Price_USD (rows six_prices ! j)
           \<or> (Price_USD (rows six_prices ! i) = Price_USD (rows six_prices ! j) \<and> i < j) \<longrightarrow>
           price_ranks six_prices ! i < price_ranks six_prices ! j
           \<and> equal_frequency_bin (length (rows six_prices)) (price_ranks six_prices ! i)
               \<le> equal_frequency_bin (length (rows six_prices)) (price_ranks six_prices ! j)"
    by blast
  from s2 have d: "distinct (quantile_edges (price_ranks six_prices) 5)" by (simp add: n)
  from s6 i1 i2 tie have o: "price_ranks six_prices ! 1 < price_ranks six_prices ! 2" by blast
  from s3 d have "get_column ''Price_Category'' seg
      = map (\<lambda>r. Some (Str (price_labels ! equal_frequency_bin (length (rows six_prices)) r)))
          (price_ranks six_prices)" by blast
  then have c: "get_column ''Price_Category'' seg
              = [Some (Str ''Mid-Range''), Some (Str ''Budget''), Some (Str ''Budget''),
                 Some (Str ''Value''), Some (Str ''Luxury''), Some (Str ''Premium'')]"
    by (simp only: n r lab)
  from s0 c have six: "\<exists>seg. segment_customer_base (Some six_prices) = Inr (six_prices, seg)
          \<and> get_column ''Price_Category'' seg
              = [Some (Str ''Mid-Range''), Some (Str ''Budget''), Some (Str ''Budget''),
                 Some (Str ''Value''), Some (Str ''Luxury''), Some (Str ''Premium'')]"
    by (intro exI [of _ seg] conjI)
  have a': "\<not> empty one_sale" by code_simp
  have b': "missing_columns one_sale (op_required Customer_Base) = []" by code_simp
  have n': "length (rows one_sale) = 1" by code_simp
  from price_category_two_attempts [OF a' b'] obtain seg' where
    t0: "segment_customer_base (Some one_sale) = Inr (one_sale, seg')" and
    t1: "(\<exists>e. qcut (price_ranks one_sale) 5 = Inl e)
           \<longleftrightarrow> \<not> distinct (quantile_edges (price_ranks one_sale) 5)" and
    t2: "distinct (quantile_edges (price_ranks one_sale) 5) \<longleftrightarrow> 2 \<le> length (rows one_sale)" and
    t4: "\<not> distinct (quantile_edges (price_ranks one_sale) 5) \<longrightarrow>
           (\<exists>ids. cut (map Price_USD (rows one_sale)) 5 = Inr ids
              \<and> get_column ''Price_Category'' seg' = map Some (label_cells price_labels ids))
           \<and> get_column ''Price_Category'' seg' = [Some (Str ''Mid-Range'')]"
    by blast
  from t2 have d': "\<not> distinct (quantile_edges (price_ranks one_sale) 5)" by (simp add: n')
  from t1 d' have f: "\<exists>e. qcut (price_ranks one_sale) 5 = Inl e" by blast
  from t4 d' have "get_column ''Price_Category'' seg' = [Some (Str ''Mid-Range'')]" by blast
  with t0 have one: "\<exists>seg. segment_customer_base (Some one_sale) = Inr (one_sale, seg)
          \<and> get_column ''Price_Category'' seg = [Some (Str ''Mid-Range'')]"
    by (intro exI [of _ seg'] conjI)
  from a b p r d o six a' b' d' f one show ?thesis by (intro conjI)
qed

end
